theory Spec2Isabelle
  imports Complex_Main "HOL-Library.Word" "HOL-Library.AList"
begin

section \<open>Strings, numbers and failures of the host language\<close>

text \<open>
  A string of the program is a sequence of 16-bit code units: \<open>length\<close>, \<open>slice\<close>,
  \<open>padStart\<close> and \<open>padEnd\<close> all count code units.  \<open>js\<close> turns a literal of the
  source (ASCII) into such a sequence.
\<close>

type_synonym jschar = "16 word"
type_synonym jsstring = "jschar list"

definition js :: "string \<Rightarrow> jsstring" where
  "js s = map of_char s"

definition space :: jschar where
  "space = 0x20"

text \<open>A number is an integer or \<open>NaN\<close> (what \<open>1 + undefined\<close> evaluates to).\<close>

datatype jsnum = Num int | NaN

text \<open>What a call can throw.\<close>

datatype error = TypeError | SyntaxError | Error jsstring

text \<open>\<open>xs[i]\<close>: \<open>undefined\<close> (\<open>None\<close>) out of range.\<close>

definition nth_opt :: "'a list \<Rightarrow> nat \<Rightarrow> 'a option" where
  "nth_opt xs i = (if i < length xs then Some (xs ! i) else None)"

text \<open>\<open>Array.prototype.map\<close> with a callback that may throw: the first throw ends the map.\<close>

fun mapE :: "('a \<Rightarrow> error + 'b) \<Rightarrow> 'a list \<Rightarrow> error + 'b list" where
  "mapE f [] = Inr []"
| "mapE f (x # xs) =
     (case f x of
        Inl e \<Rightarrow> Inl e
      | Inr y \<Rightarrow> (case mapE f xs of Inl e \<Rightarrow> Inl e | Inr ys \<Rightarrow> Inr (y # ys)))"

text \<open>A \<open>for ... of\<close> loop that updates one variable and may throw.\<close>

fun foldE :: "('b \<Rightarrow> 'a \<Rightarrow> error + 'b) \<Rightarrow> 'b \<Rightarrow> 'a list \<Rightarrow> error + 'b" where
  "foldE f a [] = Inr a"
| "foldE f a (x # xs) = (case f a x of Inl e \<Rightarrow> Inl e | Inr a' \<Rightarrow> foldE f a' xs)"

text \<open>\<open>'' + n\<close> for a non-negative integer: its decimal digits.\<close>

function nat_to_string :: "nat \<Rightarrow> jsstring" where
  "nat_to_string n =
     (if n < 10 then [of_nat (48 + n)]
      else nat_to_string (n div 10) @ [of_nat (48 + n mod 10)])"
  by pat_completeness auto
termination
  by (relation "measure id") auto

declare nat_to_string.simps [simp del]

definition int_to_string :: "int \<Rightarrow> jsstring" where
  "int_to_string i = (if i < 0 then 0x2D # nat_to_string (nat (- i)) else nat_to_string (nat i))"

text \<open>\<open>xs.join(sep)\<close>.\<close>

fun join :: "jsstring \<Rightarrow> jsstring list \<Rightarrow> jsstring" where
  "join sep [] = []"
| "join sep [x] = x"
| "join sep (x # y # ys) = x @ sep @ join sep (y # ys)"

text \<open>
  Upper-casing of one code unit, for ASCII.  \<open>toUpperCase\<close> is exact on ASCII strings
  (every header of the catalog is one); code units beyond ASCII, where the runtime consults
  the Unicode tables, are left as they are.
\<close>

definition canonicalize :: "jschar \<Rightarrow> jschar" where
  "canonicalize c = (if 0x61 \<le> c \<and> c \<le> 0x7A then c - 0x20 else c)"

definition toUpperCase :: "jsstring \<Rightarrow> jsstring" where
  "toUpperCase s = map canonicalize s"

definition ascii :: "jsstring \<Rightarrow> bool" where
  "ascii s = list_all (\<lambda>c. c < 0x80) s"

text \<open>\<open>xs.filter(isNonNullish)\<close>.\<close>

fun filter_isNonNullish :: "'a option list \<Rightarrow> 'a list" where
  "filter_isNonNullish [] = []"
| "filter_isNonNullish (None # xs) = filter_isNonNullish xs"
| "filter_isNonNullish (Some x # xs) = x # filter_isNonNullish xs"

text \<open>\<open>xs.map((x, i) => f x i)\<close>.\<close>

definition mapi :: "('a \<Rightarrow> nat \<Rightarrow> 'b) \<Rightarrow> 'a list \<Rightarrow> 'b list" where
  "mapi f xs = map (\<lambda>(i, x). f x i) (enumerate 0 xs)"

section \<open>Objects with string keys\<close>

text \<open>
  An object literal or a dictionary built by assignment: an association list with one entry
  per key; assigning to a key that is present replaces its value.
\<close>

type_synonym 'v obj = "(jsstring \<times> 'v) list"

definition fromPairs :: "(jsstring \<times> 'v) list \<Rightarrow> 'v obj" where
  "fromPairs ps = fold (\<lambda>(k, v) ob. AList.update k v ob) ps []"

text \<open>\<open>{...a, ...b}\<close>: the entries of \<open>b\<close> are assigned over those of \<open>a\<close>.\<close>

definition spread :: "'v obj \<Rightarrow> 'v obj \<Rightarrow> 'v obj" where
  "spread a b = fold (\<lambda>(k, v) ob. AList.update k v ob) b a"

text \<open>The keys of \<open>new Set(xs)\<close>, in insertion order: the first occurrence of each element.\<close>

fun set_keys :: "'a list \<Rightarrow> 'a list" where
  "set_keys [] = []"
| "set_keys (x # xs) = x # filter (\<lambda>y. y \<noteq> x) (set_keys xs)"

section \<open>Records of the search service\<close>

text \<open>
  Modelled from the spec: the declarations of \<open>Hit\<close> and \<open>Description\<close> (module
  \<open>./response\<close>) are not among the sources.  The spec describes a record with named
  fields, any of which may be missing, and per textual field a match annotation that is
  absent, no match, a partial match with its matched words, or a full match.  The fields are
  those the program reads; a field that may be missing is an \<open>option\<close>.  The
  popularity flag is read for its truth value only, so a missing flag is \<open>False\<close>, and the
  container of the annotations is taken to be present.
\<close>

record Description =
  matchLevel :: jsstring
  fullyHighlighted :: bool
  matchedWords :: "jsstring list"

record Types =
  ts :: "jsstring option"
  definitelyTyped :: "jsstring option"

record Repository =
  url :: "jsstring option"

record HighlightResult =
  name_hl :: "Description option"
  description_hl :: "Description option"

record Hit =
  humanDownloadsLast30Days :: "jsstring option"
  popular :: bool
  objectID :: "jsstring option"
  types :: "Types option"
  description :: "jsstring option"
  modified :: "int option"
  homepage :: "jsstring option"
  repository :: "Repository option"
  highlight_result :: HighlightResult

section \<open>The linear program handed to the solver\<close>

record Constraint =
  max_c :: int
  name_c :: "jsstring option"

record Model =
  opType :: jsstring
  optimize :: jsstring
  constraints :: "Constraint obj"
  variables :: "(jsnum obj) obj"
  ints :: "jsstring list"

text \<open>
  The solver's answer: the flag \<open>feasible\<close> and, under each variable's name, its value
  (a variable the answer does not mention reads as \<open>undefined\<close>).
\<close>

record Solution =
  feasible :: bool
  result :: real
  bounded :: bool
  var_value :: "jsstring \<Rightarrow> real option"

section \<open>Command line and environment\<close>

record Program =
  npm :: bool
  yarn :: bool
  num :: jsnum
  exact :: bool
  repo :: bool
  debug :: bool
  bundled :: bool
  dt :: bool
  untyped :: bool
  args :: "jsstring list"

text \<open>
  The libraries and the process the program runs in, as parameters: entity decoding
  (\<open>he\<close>), the two renderings of a timestamp (\<open>moment\<close>), emphasis (\<open>chalk.bold\<close>),
  the solver (\<open>javascript-lp-solver\<close>), the terminal width (\<open>process.stdout.columns\<close>,
  \<open>undefined\<close> when the output is not a terminal) and the search service.
  \<open>regexp_replace pattern replacement val\<close> is what the regular-expression engine of the
  runtime makes of \<open>val.replace(new RegExp(pattern, 'ig'), replacement)\<close>; it is consulted
  only for the patterns and replacements that the embedding of the engine below does not
  cover, so that nothing is assumed about them.
\<close>

record Env =
  decode :: "jsstring \<Rightarrow> jsstring"
  moment_format :: "int option \<Rightarrow> jsstring"
  moment_fromNow :: "int option \<Rightarrow> jsstring"
  chalk_bold :: "jsstring \<Rightarrow> jsstring"
  Solve :: "Model \<Rightarrow> Solution"
  stdout_columns :: "int option"
  search :: "jsstring \<Rightarrow> jsstring \<Rightarrow> jsnum \<Rightarrow> error + Hit list"
  regexp_replace :: "jsstring \<Rightarrow> jsstring \<Rightarrow> jsstring \<Rightarrow> error + jsstring"

text \<open>What the program writes with \<open>console.log\<close>: a line of text, or a diagnostic.\<close>

datatype console =
    Log jsstring
  | DebugModel Model
  | DebugResult Solution
  | DebugElapsed
  | DebugGot nat nat
  | DebugResponse "Hit list"

section \<open>The column catalog\<close>

datatype Align = AlignLeft | AlignRight

record Column =
  header :: jsstring
  align :: "Align option"
  maxWidth :: "int option"
  format :: "Hit \<Rightarrow> error + jsstring option"
  highlight :: "(jsstring \<Rightarrow> Hit option \<Rightarrow> error + jsstring) option"
  importance :: int
  mutexGroup :: "jsstring option"


text \<open>\<open>a || b\<close> on strings: \<open>undefined\<close>, \<open>null\<close> and the empty string are falsy.\<close>

definition truthy_str :: "jsstring option \<Rightarrow> bool" where
  "truthy_str v = (case v of None \<Rightarrow> False | Some s \<Rightarrow> s \<noteq> [])"

text \<open>A value inside a template literal: \<open>undefined\<close> prints as the word.\<close>

definition template :: "jsstring option \<Rightarrow> jsstring" where
  "template v = (case v of None \<Rightarrow> js ''undefined'' | Some s \<Rightarrow> s)"

definition makeInstallCommand :: "Program \<Rightarrow> jsstring \<Rightarrow> Hit \<Rightarrow> error + jsstring option" where
  "makeInstallCommand program cmd h =
     (case types h of
        None \<Rightarrow> Inl TypeError
      | Some t \<Rightarrow>
          (let install = cmd @ js '' '' @ (if exact program then js ''-E '' else []) @ template (objectID h)
           in if ts t = Some (js ''included'') then Inr (Some install)
              else if ts t = Some (js ''definitely-typed'') then
                Inr (Some (install @ js '' && '' @ cmd @ js '' -D''
                  @ (if exact program then js ''E'' else []) @ js '' '' @ template (definitelyTyped t)))
              else Inr (Some [])))"

text \<open>The flame emoji of the \<open>pop\<close> column: two code units.\<close>

definition fire :: jsstring where
  "fire = [0xD83D, 0xDD25]"

definition repository_url :: "Hit \<Rightarrow> jsstring option" where
  "repository_url h = (case repository h of None \<Rightarrow> Some [] | Some r \<Rightarrow> url r)"

definition format_description :: "Env \<Rightarrow> Hit \<Rightarrow> error + jsstring option" where
  "format_description env h =
     Inr (Some (decode env (case description h of None \<Rightarrow> [] | Some d \<Rightarrow> d)))"

section \<open>Highlighting\<close>

text \<open>
  \<open>val.replace(new RegExp(word, 'ig'), replacement)\<close>.  The fragment embedded: a pattern
  of ASCII code units none of which is a syntax character of the pattern language matches
  itself, letters in either case, and every match from left to right is replaced; a pattern
  that starts with a quantifier is rejected by the constructor.  Every other pattern, and a
  replacement with a dollar sign (it refers to the match), is left to the engine of the
  environment.
\<close>

definition syntax_chars :: "jschar list" where
  "syntax_chars = [0x5E, 0x24, 0x5C, 0x2E, 0x2A, 0x2B, 0x3F, 0x28, 0x29, 0x5B, 0x5D, 0x7B, 0x7D, 0x7C]"

datatype pattern_kind = Literal | Invalid | Other

definition pattern_kind_of :: "jsstring \<Rightarrow> pattern_kind" where
  "pattern_kind_of p =
     (if list_all (\<lambda>c. c < 0x80 \<and> c \<notin> set syntax_chars) p then Literal
      else if hd p \<in> set [0x2A, 0x2B, 0x3F] then Invalid
      else Other)"

definition ci_prefix :: "jsstring \<Rightarrow> jsstring \<Rightarrow> bool" where
  "ci_prefix p s =
     (length p \<le> length s \<and> map canonicalize (take (length p) s) = map canonicalize p)"

fun replace_lit :: "jsstring \<Rightarrow> jsstring \<Rightarrow> jsstring \<Rightarrow> jsstring" where
  "replace_lit p r [] = []"
| "replace_lit p r (c # cs) =
     (if ci_prefix p (c # cs) then r @ replace_lit p r (drop (length p - 1) cs)
      else c # replace_lit p r cs)"

definition replace_all_ci :: "jsstring \<Rightarrow> jsstring \<Rightarrow> jsstring \<Rightarrow> jsstring" where
  "replace_all_ci p r s =
     (if p = [] then r @ concat (map (\<lambda>c. c # r) s) else replace_lit p r s)"

definition replace_ig :: "Env \<Rightarrow> jsstring \<Rightarrow> jsstring \<Rightarrow> jsstring \<Rightarrow> error + jsstring" where
  "replace_ig env word replacement val =
     (case pattern_kind_of word of
        Invalid \<Rightarrow> Inl SyntaxError
      | Other \<Rightarrow> regexp_replace env word replacement val
      | Literal \<Rightarrow>
          if 0x24 \<in> set replacement then regexp_replace env word replacement val
          else Inr (replace_all_ci word replacement val))"

definition highlightValue :: "Env \<Rightarrow> jsstring \<Rightarrow> Description option \<Rightarrow> error + jsstring" where
  "highlightValue env val highlightResult =
     (case highlightResult of
        None \<Rightarrow> Inr val
      | Some d \<Rightarrow>
          if matchLevel d = js ''none'' then Inr val
          else if fullyHighlighted d then Inr (chalk_bold env val)
          else foldE (\<lambda>v word. replace_ig env word (chalk_bold env word) v) val (matchedWords d))"

text \<open>
  \<open>chalk.bold\<close> with colours on, for a string without escape or line-feed characters:
  the string between the codes that switch bold on and off; the empty string stays empty.
\<close>

definition bold_open :: jsstring where
  "bold_open = [0x1B, 0x5B, 0x31, 0x6D]"

definition bold_close :: jsstring where
  "bold_close = [0x1B, 0x5B, 0x32, 0x32, 0x6D]"

definition ansi_bold :: "jsstring \<Rightarrow> jsstring" where
  "ansi_bold s = (if s = [] then [] else bold_open @ s @ bold_close)"

text \<open>
  The characters a terminal shows: the string without the two codes.  \<open>strip n s\<close> drops
  the next \<open>n\<close> code units (the rest of a code just recognised).
\<close>

fun strip :: "nat \<Rightarrow> jsstring \<Rightarrow> jsstring" where
  "strip n [] = []"
| "strip (Suc n) (c # cs) = strip n cs"
| "strip 0 (c # cs) =
     (if take 4 (c # cs) = bold_open then strip 3 cs
      else if take 5 (c # cs) = bold_close then strip 4 cs
      else c # strip 0 cs)"

definition visible :: "jsstring \<Rightarrow> jsstring" where
  "visible s = strip 0 s"

section \<open>The catalog\<close>

definition highlight_name :: "Env \<Rightarrow> jsstring \<Rightarrow> Hit option \<Rightarrow> error + jsstring" where
  "highlight_name env v h =
     (case h of None \<Rightarrow> Inl TypeError
      | Some h \<Rightarrow> highlightValue env v (name_hl (highlight_result h)))"

definition highlight_description :: "Env \<Rightarrow> jsstring \<Rightarrow> Hit option \<Rightarrow> error + jsstring" where
  "highlight_description env v h =
     (case h of None \<Rightarrow> Inl TypeError
      | Some h \<Rightarrow> highlightValue env v (description_hl (highlight_result h)))"

definition format_types_long :: "Hit \<Rightarrow> error + jsstring option" where
  "format_types_long h =
     (case types h of
        None \<Rightarrow> Inl TypeError
      | Some t \<Rightarrow>
          if ts t = Some (js ''included'') then Inr (Some (js ''<bundled>''))
          else if ts t = Some (js ''definitely-typed'') then Inr (definitelyTyped t)
          else Inr (Some []))"

definition format_types_short :: "Hit \<Rightarrow> error + jsstring option" where
  "format_types_short h =
     (case types h of
        None \<Rightarrow> Inl TypeError
      | Some t \<Rightarrow>
          if ts t = Some (js ''included'') then Inr (Some (js ''<inc>''))
          else if ts t = Some (js ''definitely-typed'') then Inr (Some (js ''dt''))
          else Inr (Some []))"

definition format_homepage :: "Hit \<Rightarrow> error + jsstring option" where
  "format_homepage h = Inr (if truthy_str (homepage h) then homepage h else repository_url h)"

definition columns :: "Env \<Rightarrow> Program \<Rightarrow> Column list" where
  "columns env program =
   [ \<lparr>header = js ''DLs'', align = Some AlignRight, maxWidth = None,
      format = (\<lambda>h. Inr (humanDownloadsLast30Days h)), highlight = None,
      importance = 3, mutexGroup = None\<rparr>,
     \<lparr>header = js ''pop'', align = None, maxWidth = None,
      format = (\<lambda>h. Inr (Some (if popular h then fire else []))), highlight = None,
      importance = 2, mutexGroup = None\<rparr>,
     \<lparr>header = js ''name'', align = None, maxWidth = None,
      format = (\<lambda>h. Inr (objectID h)), highlight = Some (highlight_name env),
      importance = 100, mutexGroup = None\<rparr>,
     \<lparr>header = js ''types'', align = None, maxWidth = None,
      format = format_types_long, highlight = None,
      importance = 100, mutexGroup = Some (js ''types'')\<rparr>,
     \<lparr>header = js ''types'', align = None, maxWidth = None,
      format = format_types_short, highlight = None,
      importance = 80, mutexGroup = Some (js ''types'')\<rparr>,
     \<lparr>header = js ''npm'', align = None, maxWidth = None,
      format = makeInstallCommand program (js ''npm install''), highlight = None,
      importance = - 1, mutexGroup = None\<rparr>,
     \<lparr>header = js ''yarn'', align = None, maxWidth = None,
      format = makeInstallCommand program (js ''yarn add''), highlight = None,
      importance = - 1, mutexGroup = None\<rparr>,
     \<lparr>header = js ''description'', align = None, maxWidth = Some 40,
      format = format_description env, highlight = Some (highlight_description env),
      importance = 25, mutexGroup = Some (js ''desc'')\<rparr>,
     \<lparr>header = js ''description'', align = None, maxWidth = Some 60,
      format = format_description env, highlight = Some (highlight_description env),
      importance = 30, mutexGroup = Some (js ''desc'')\<rparr>,
     \<lparr>header = js ''description'', align = None, maxWidth = None,
      format = format_description env, highlight = Some (highlight_description env),
      importance = 35, mutexGroup = Some (js ''desc'')\<rparr>,
     \<lparr>header = js ''date'', align = None, maxWidth = None,
      format = (\<lambda>h. Inr (Some (moment_format env (modified h)))), highlight = None,
      importance = 1, mutexGroup = None\<rparr>,
     \<lparr>header = js ''updated'', align = None, maxWidth = None,
      format = (\<lambda>h. Inr (Some (moment_fromNow env (modified h)))), highlight = None,
      importance = 5, mutexGroup = None\<rparr>,
     \<lparr>header = js ''homepage'', align = None, maxWidth = None,
      format = format_homepage, highlight = None,
      importance = 10, mutexGroup = None\<rparr>,
     \<lparr>header = js ''repo'', align = None, maxWidth = None,
      format = (\<lambda>h. Inr (repository_url h)), highlight = None,
      importance = - 1, mutexGroup = None\<rparr> ]"

definition formatResult :: "Column list \<Rightarrow> Hit \<Rightarrow> error + jsstring option list" where
  "formatResult cols hit = mapE (\<lambda>col. format col hit) cols"


section \<open>Column widths and alignment\<close>

text \<open>\<open>v.slice(0, w)\<close>: a negative end counts from the end of the string.\<close>

definition slice0 :: "jsstring \<Rightarrow> int \<Rightarrow> jsstring" where
  "slice0 v w = (if 0 \<le> w then take (nat w) v else take (nat (int (length v) + w)) v)"

definition padStart :: "jsstring \<Rightarrow> int \<Rightarrow> jsstring" where
  "padStart v w = replicate (nat w - length v) space @ v"

definition padEnd :: "jsstring \<Rightarrow> int \<Rightarrow> jsstring" where
  "padEnd v w = v @ replicate (nat w - length v) space"

text \<open>The function \<open>formatColumn\<close> maps over the cells of a column.\<close>

definition formatColumn_cell :: "Align option \<Rightarrow> int \<Rightarrow> jsstring \<Rightarrow> jsstring" where
  "formatColumn_cell al width v =
     (let v' = slice0 v width
      in if al = Some AlignRight then padStart v' width else padEnd v' width)"

text \<open>\<open>_.max\<close>: \<open>undefined\<close> on the empty array.\<close>

definition lodash_max :: "int list \<Rightarrow> int option" where
  "lodash_max xs = (case xs of [] \<Rightarrow> None | x # ys \<Rightarrow> Some (fold max ys x))"

text \<open>
  Reading \<open>v.length\<close> of an \<open>undefined\<close> cell throws.  With no cell at all the width is
  \<open>NaN\<close> and there is nothing to map over.
\<close>

definition formatColumn :: "jsstring option list \<Rightarrow> Column \<Rightarrow> error + jsstring list" where
  "formatColumn vals spec =
     (case mapE (\<lambda>v. case v of None \<Rightarrow> Inl TypeError | Some s \<Rightarrow> Inr s) vals of
        Inl e \<Rightarrow> Inl e
      | Inr strs \<Rightarrow>
          (case lodash_max (map (\<lambda>v. int (length v)) strs) of
             None \<Rightarrow> Inr []
           | Some maxLen \<Rightarrow>
               (let width = min maxLen
                      (case maxWidth spec of None \<Rightarrow> maxLen | Some m \<Rightarrow> if m = 0 then maxLen else m)
                in Inr (map (formatColumn_cell (align spec) width) strs))))"

section \<open>Column selection\<close>

definition budget :: "Env \<Rightarrow> int" where
  "budget env = (case stdout_columns env of None \<Rightarrow> 80 | Some w \<Rightarrow> if w = 0 then 80 else w)"

definition mutexes_of :: "Column list \<Rightarrow> jsstring list" where
  "mutexes_of cols = set_keys (filter_isNonNullish (map mutexGroup cols))"

definition constraint_name :: "Column \<Rightarrow> jsstring" where
  "constraint_name c =
     header c @ (case maxWidth c of None \<Rightarrow> []
                 | Some m \<Rightarrow> if m = 0 then [] else js ''/'' @ int_to_string m)"

definition lp_constraints :: "Env \<Rightarrow> Column list \<Rightarrow> Constraint obj" where
  "lp_constraints env cols =
     (let c0 = [(js ''width'', \<lparr>max_c = 1 + budget env, name_c = None\<rparr>)];
          c1 = fold (\<lambda>mutex cs. AList.update mutex \<lparr>max_c = 1, name_c = None\<rparr> cs)
                 (mutexes_of cols) c0
      in fold (\<lambda>(i, c) cs.
                 AList.update (nat_to_string i) \<lparr>max_c = 1, name_c = Some (constraint_name c)\<rparr> cs)
           (enumerate 0 cols) c1)"

definition lp_variable :: "Column list \<Rightarrow> int list \<Rightarrow> Column \<Rightarrow> nat \<Rightarrow> jsstring \<times> jsnum obj" where
  "lp_variable cols widths c i =
     (nat_to_string i,
      spread
        (fromPairs
           [(js ''importance'', Num (importance c)),
            (js ''width'', (case nth_opt widths i of None \<Rightarrow> NaN | Some w \<Rightarrow> Num (1 + w))),
            (nat_to_string i, Num 1)])
        (fromPairs (map (\<lambda>m. (m, Num (if mutexGroup c = Some m then 1 else 0))) (mutexes_of cols))))"

definition lp_model :: "Env \<Rightarrow> Column list \<Rightarrow> int list \<Rightarrow> Model" where
  "lp_model env cols widths =
     \<lparr>opType = js ''max'',
      optimize = js ''importance'',
      constraints = lp_constraints env cols,
      variables = fromPairs (mapi (lp_variable cols widths) cols),
      ints = mapi (\<lambda>c i. nat_to_string i) cols\<rparr>"

definition truthy_num :: "real option \<Rightarrow> bool" where
  "truthy_num v = (case v of None \<Rightarrow> False | Some x \<Rightarrow> x \<noteq> 0)"

text \<open>The result is what the debug option logged and the indices returned.\<close>

definition pickColumns :: "Env \<Rightarrow> Program \<Rightarrow> Column list \<Rightarrow> int list \<Rightarrow> console list \<times> nat list" where
  "pickColumns env program cols widths =
     (let model = lp_model env cols widths;
          log1 = (if debug program then [DebugModel model] else []);
          res = Solve env model;
          log2 = (if debug program then [DebugResult res] else [])
      in (log1 @ log2,
          if feasible res
          then filter_isNonNullish
                 (mapi (\<lambda>c i. if truthy_num (var_value res (nat_to_string i)) then Some i else None) cols)
          else filter_isNonNullish
                 (mapi (\<lambda>c i. if importance c \<ge> 25 then Some i else None) cols)))"

section \<open>The table\<close>

definition table_column :: "jsstring option list list \<Rightarrow> Column \<Rightarrow> nat \<Rightarrow> jsstring option list" where
  "table_column rows c j =
     Some (toUpperCase (header c)) # map (\<lambda>r. case nth_opt r j of None \<Rightarrow> None | Some v \<Rightarrow> v) rows"

definition highlight_column ::
  "Column list \<Rightarrow> jsstring list list \<Rightarrow> Hit list \<Rightarrow> nat \<Rightarrow> error + jsstring list" where
  "highlight_column cols formattedCols hits i =
     (case nth_opt cols i of
        None \<Rightarrow> Inl TypeError
      | Some spec \<Rightarrow>
          (case nth_opt formattedCols i of
             None \<Rightarrow> Inl TypeError
           | Some fc \<Rightarrow>
               (case highlight spec of
                  None \<Rightarrow> Inr fc
                | Some hl \<Rightarrow>
                    mapE (\<lambda>(j, v). if j > 0 then hl v (nth_opt hits (j - 1)) else Inr v)
                      (enumerate 0 fc))))"

definition table_line :: "jsstring list list \<Rightarrow> nat \<Rightarrow> jsstring" where
  "table_line pickedCols i =
     join (js '' '') (map (\<lambda>c. case nth_opt c i of None \<Rightarrow> [] | Some v \<Rightarrow> v) pickedCols)"

text \<open>The first lines of \<open>printTable\<close>: the aligned columns and their widths.\<close>

definition printTable_formattedCols ::
  "Column list \<Rightarrow> jsstring option list list \<Rightarrow> error + jsstring list list" where
  "printTable_formattedCols cols rows =
     mapE (\<lambda>(j, c). formatColumn (table_column rows c j) c) (enumerate 0 cols)"

definition printTable_widths :: "jsstring list list \<Rightarrow> error + int list" where
  "printTable_widths formattedCols =
     mapE (\<lambda>c. case c of [] \<Rightarrow> Inl TypeError | v # _ \<Rightarrow> Inr (int (length v))) formattedCols"

text \<open>
  The result is what was logged and, when the call threw, the exception.  Everything that
  can throw comes before the first line of the table.
\<close>

definition printTable ::
  "Env \<Rightarrow> Program \<Rightarrow> Column list \<Rightarrow> jsstring option list list \<Rightarrow> Hit list
     \<Rightarrow> console list \<times> error option" where
  "printTable env program cols rows hits =
     (case printTable_formattedCols cols rows of
        Inl e \<Rightarrow> ([], Some e)
      | Inr formattedCols \<Rightarrow>
          (case printTable_widths formattedCols of
             Inl e \<Rightarrow> ([], Some e)
           | Inr widths \<Rightarrow>
               (let (logs, colIndices) = pickColumns env program cols widths
                in case mapE (highlight_column cols formattedCols hits) colIndices of
                     Inl e \<Rightarrow> (logs, Some e)
                   | Inr pickedCols \<Rightarrow>
                       (logs @ map (\<lambda>i. Log (table_line pickedCols i)) [0..<Suc (length rows)],
                        None))))"

section \<open>Options and the run\<close>

definition adjustImportance :: "jsstring \<Rightarrow> int \<Rightarrow> Column list \<Rightarrow> error + Column list" where
  "adjustImportance hdr newImportance cols =
     (if list_ex (\<lambda>col. header col = hdr) cols
      then Inr (map (\<lambda>col. if header col = hdr then col\<lparr>importance := newImportance\<rparr> else col) cols)
      else Inl (Error (js ''Unable to find column with header '' @ hdr)))"

definition bindE :: "error + 'a \<Rightarrow> ('a \<Rightarrow> error + 'b) \<Rightarrow> error + 'b" where
  "bindE r f = (case r of Inl e \<Rightarrow> Inl e | Inr v \<Rightarrow> f v)"

definition IS_DT :: jsstring where
  "IS_DT = js ''types.ts:\"definitely-typed\"''"

definition IS_INCLUDED :: jsstring where
  "IS_INCLUDED = js ''types.ts:\"included\"''"

definition NOT_TYPES :: jsstring where
  "NOT_TYPES = js ''NOT owner.name:DefinitelyTyped''"

definition FILTERS_default :: jsstring where
  "FILTERS_default = js ''('' @ IS_DT @ js '' OR '' @ IS_INCLUDED @ js '') AND '' @ NOT_TYPES"

definition FILTERS_bundled :: jsstring where
  "FILTERS_bundled = IS_INCLUDED @ js '' AND '' @ NOT_TYPES"

definition program_flag :: "Program \<Rightarrow> jsstring \<Rightarrow> bool" where
  "program_flag program flag =
     (if flag = js ''untyped'' then untyped program
      else if flag = js ''dt'' then dt program
      else if flag = js ''bundled'' then bundled program
      else False)"

definition applyFlags :: "Program \<Rightarrow> Column list \<Rightarrow> error + (Column list \<times> jsstring)" where
  "applyFlags program cols0 =
     bindE (if yarn program then adjustImportance (js ''yarn'') 1000 cols0 else Inr cols0) (\<lambda>cols1.
     bindE (if npm program then adjustImportance (js ''npm'') 1000 cols1 else Inr cols1) (\<lambda>cols2.
     bindE (if yarn program \<or> npm program then adjustImportance (js ''types'') 25 cols2 else Inr cols2) (\<lambda>cols3.
     bindE (if repo program
            then bindE (adjustImportance (js ''repo'') 1000 cols3) (adjustImportance (js ''homepage'') (- 1))
            else Inr cols3) (\<lambda>cols4.
     (let flags = [js ''untyped'', js ''dt'', js ''bundled'']
      in if sum_list (map (\<lambda>flag. if program_flag program flag then 1 else 0) flags) > (1 :: int)
         then Inl (Error (js ''May only specify one of '' @ join (js '','') flags))
         else Inr (cols4,
                   if untyped program then NOT_TYPES
                   else if dt program then IS_DT
                   else if bundled program then FILTERS_bundled
                   else FILTERS_default))))))"

definition less_num :: "nat \<Rightarrow> jsnum \<Rightarrow> bool" where
  "less_num n m = (case m of NaN \<Rightarrow> False | Num k \<Rightarrow> int n < k)"

definition no_results :: jsstring where
  "no_results = js ''No results. Try dtsearch -u to include packages without types.''"

definition only_results :: "nat \<Rightarrow> jsstring" where
  "only_results n =
     0x0A # js ''Only '' @ nat_to_string n @ js '' result'' @ (if n > 1 then js ''s'' else [])
       @ js ''. Try dtsearch -u to include packages without types.''"

text \<open>
  The run: what it logged and, when it failed, the exception that \<open>console.error\<close>
  reports.
\<close>

definition main :: "Env \<Rightarrow> Program \<Rightarrow> console list \<times> error option" where
  "main env program =
     (let query = join (js '' '') (args program)
      in case applyFlags program (columns env program) of
           Inl e \<Rightarrow> ([], Some e)
         | Inr (cols, filters) \<Rightarrow>
             (case search env query filters (num program) of
                Inl e \<Rightarrow> ([], Some e)
              | Inr hits \<Rightarrow>
                  (let log1 = (if debug program then [DebugElapsed] else [])
                   in if length hits = 0 then (log1 @ [Log no_results], None)
                      else
                        (let log2 = (if debug program
                                     then [DebugGot (length hits) (length hits), DebugResponse hits]
                                     else [])
                         in case mapE (formatResult cols) hits of
                              Inl e \<Rightarrow> (log1 @ log2, Some e)
                            | Inr table \<Rightarrow>
                                (case printTable env program cols table hits of
                                   (out, Some e) \<Rightarrow> (log1 @ log2 @ out, Some e)
                                 | (out, None) \<Rightarrow>
                                     (log1 @ log2 @ out
                                        @ (if less_num (length hits) (num program)
                                           then [Log (only_results (length hits))] else []),
                                      None))))))"


section \<open>What the solver promises\<close>

text \<open>
  The solver is a library; this is the contract of its documentation, which the selection
  relies on.  A model names an attribute to optimise and bounds other attributes from above;
  a variable carries a coefficient for each attribute (zero when it does not mention it),
  takes a value that is not negative, and a whole number when \<open>ints\<close> holds a truthy
  entry under its name.  The program passes \<open>ints\<close> as an array, so the entry under the
  name of a variable is the element at that index.  When the answer is flagged feasible,
  its values satisfy every bound and no values that do so reach a greater objective.
\<close>

definition attr_coef :: "jsnum obj \<Rightarrow> jsstring \<Rightarrow> real" where
  "attr_coef attrs k = (case map_of attrs k of Some (Num c) \<Rightarrow> of_int c | _ \<Rightarrow> 0)"

definition lp_lhs :: "Model \<Rightarrow> (jsstring \<Rightarrow> real) \<Rightarrow> jsstring \<Rightarrow> real" where
  "lp_lhs m x k = (\<Sum>(v, attrs) \<leftarrow> variables m. attr_coef attrs k * x v)"

definition lp_int :: "Model \<Rightarrow> jsstring \<Rightarrow> bool" where
  "lp_int m v = (\<exists>i < length (ints m). nat_to_string i = v \<and> ints m ! i \<noteq> [])"

definition lp_numeric :: "Model \<Rightarrow> bool" where
  "lp_numeric m = (\<forall>(v, attrs) \<in> set (variables m). \<forall>(k, c) \<in> set attrs. c \<noteq> NaN)"

definition lp_feasible :: "Model \<Rightarrow> (jsstring \<Rightarrow> real) \<Rightarrow> bool" where
  "lp_feasible m x =
     ((\<forall>(v, attrs) \<in> set (variables m). 0 \<le> x v \<and> (lp_int m v \<longrightarrow> x v \<in> \<int>))
      \<and> (\<forall>(k, c) \<in> set (constraints m). lp_lhs m x k \<le> of_int (max_c c)))"

definition solution_value :: "Solution \<Rightarrow> jsstring \<Rightarrow> real" where
  "solution_value r v = (case var_value r v of None \<Rightarrow> 0 | Some a \<Rightarrow> a)"

definition solver_contract :: "(Model \<Rightarrow> Solution) \<Rightarrow> Model \<Rightarrow> bool" where
  "solver_contract slv m =
     (lp_numeric m \<and> opType m = js ''max'' \<and> feasible (slv m) \<longrightarrow>
        lp_feasible m (solution_value (slv m))
        \<and> (\<forall>y. lp_feasible m y \<longrightarrow>
               lp_lhs m y (optimize m) \<le> lp_lhs m (solution_value (slv m)) (optimize m)))"

section \<open>The selection problem and the natural width, in the words of the specification\<close>

text \<open>
  A set of column indices is admissible when the widths of its columns, one more each for
  the separator, sum to at most the budget plus one, and it holds at most one column of each
  mutex group.
\<close>

definition spec_feasible :: "Column list \<Rightarrow> int list \<Rightarrow> int \<Rightarrow> nat set \<Rightarrow> bool" where
  "spec_feasible cols widths b T =
     (T \<subseteq> {..<length cols}
      \<and> (\<Sum>i\<in>T. 1 + widths ! i) \<le> b + 1
      \<and> (\<forall>g \<in> set (mutexes_of cols). card {i \<in> T. mutexGroup (cols ! i) = Some g} \<le> 1))"

definition spec_total :: "Column list \<Rightarrow> nat set \<Rightarrow> int" where
  "spec_total cols T = (\<Sum>i\<in>T. importance (cols ! i))"

definition spec_optimal :: "Column list \<Rightarrow> int list \<Rightarrow> int \<Rightarrow> nat set \<Rightarrow> bool" where
  "spec_optimal cols widths b S =
     (spec_feasible cols widths b S
      \<and> (\<forall>T. spec_feasible cols widths b T \<longrightarrow> spec_total cols T \<le> spec_total cols S))"

text \<open>
  The names the model gives its constraints and attributes must not coincide: no mutex group
  is called \<open>width\<close> or \<open>importance\<close> or by the number of a column.
\<close>

definition names_ok :: "Column list \<Rightarrow> bool" where
  "names_ok cols =
     (\<forall>g \<in> set (mutexes_of cols).
        g \<noteq> js ''width'' \<and> g \<noteq> js ''importance''
        \<and> g \<notin> set (map nat_to_string [0..<length cols]))"

text \<open>
  The natural width of a column: the greatest length among the header and the values,
  capped by the maximal width when there is one.
\<close>

definition spec_natural_width :: "jsstring \<Rightarrow> jsstring list \<Rightarrow> int option \<Rightarrow> int" where
  "spec_natural_width hdr vals cap =
     (let longest = Max (set (map (\<lambda>v. int (length v)) (hdr # vals)))
      in case cap of None \<Rightarrow> longest | Some k \<Rightarrow> min longest k)"

section \<open>Auxiliary notions\<close>

text \<open>The attributes of the variable of column \<open>i\<close>, and the constraint under its number.\<close>

definition attrs_of :: "Column list \<Rightarrow> int list \<Rightarrow> nat \<Rightarrow> jsnum obj" where
  "attrs_of cols widths i = snd (lp_variable cols widths (cols ! i) i)"

definition col_constraint :: "Column list \<Rightarrow> nat \<Rightarrow> Constraint" where
  "col_constraint cols i = \<lparr>max_c = 1, name_c = Some (constraint_name (cols ! i))\<rparr>"

text \<open>
  The strings of column \<open>j\<close> (the header in capitals, then one value per row), the width
  \<open>formatColumn\<close> computes from them, the aligned cell in line \<open>i\<close> and what becomes of
  it in the highlight phase: line 0 is the header line, line \<open>i + 1\<close> belongs to record \<open>i\<close>.
\<close>

definition column_strings :: "Column list \<Rightarrow> jsstring list list \<Rightarrow> nat \<Rightarrow> jsstring list" where
  "column_strings cols rows j = toUpperCase (header (cols ! j)) # map (\<lambda>r. r ! j) rows"

definition column_width :: "Column \<Rightarrow> jsstring list \<Rightarrow> int" where
  "column_width spec strs =
     (let maxLen = Max (set (map (\<lambda>v. int (length v)) strs))
      in min maxLen (case maxWidth spec of None \<Rightarrow> maxLen | Some m \<Rightarrow> if m = 0 then maxLen else m))"

definition aligned_cell :: "Column list \<Rightarrow> jsstring list list \<Rightarrow> nat \<Rightarrow> nat \<Rightarrow> jsstring" where
  "aligned_cell cols rows j i =
     formatColumn_cell (align (cols ! j)) (column_width (cols ! j) (column_strings cols rows j))
       (column_strings cols rows j ! i)"

definition rendered_cell ::
  "Column list \<Rightarrow> jsstring list list \<Rightarrow> Hit list \<Rightarrow> nat \<Rightarrow> nat \<Rightarrow> error + jsstring" where
  "rendered_cell cols rows hits j i =
     (if i = 0 then Inr (aligned_cell cols rows j 0)
      else case highlight (cols ! j) of
             None \<Rightarrow> Inr (aligned_cell cols rows j i)
           | Some hl \<Rightarrow> hl (aligned_cell cols rows j i) (nth_opt hits (i - 1)))"

text \<open>
  The two parts of an aligned cell: the value cut to the width of its column, and the spaces
  that fill the cell up to that width.
\<close>

definition truncated_cell :: "Column list \<Rightarrow> jsstring list list \<Rightarrow> nat \<Rightarrow> nat \<Rightarrow> jsstring" where
  "truncated_cell cols rows j i =
     slice0 (column_strings cols rows j ! i) (column_width (cols ! j) (column_strings cols rows j))"

definition cell_padding :: "Column list \<Rightarrow> jsstring list list \<Rightarrow> nat \<Rightarrow> nat \<Rightarrow> jsstring" where
  "cell_padding cols rows j i =
     replicate (nat (column_width (cols ! j) (column_strings cols rows j))
                  - length (truncated_cell cols rows j i)) space"

text \<open>
  A matched word that the embedded fragment of the engine covers and that cannot match a
  space: ASCII code units other than the space and the syntax characters, a replacement
  without dollar sign, and for the empty word (which matches at every position) the empty
  replacement.
\<close>

definition plain_word :: "Env \<Rightarrow> jsstring \<Rightarrow> bool" where
  "plain_word env word \<longleftrightarrow>
     pattern_kind_of word = Literal \<and> space \<notin> set word \<and> 0x24 \<notin> set (chalk_bold env word)
     \<and> (word = [] \<longrightarrow> chalk_bold env word = [])"

definition printed_widths :: "Column list \<Rightarrow> jsstring list list \<Rightarrow> int list" where
  "printed_widths cols rows = map (\<lambda>j. int (length (aligned_cell cols rows j 0))) [0..<length cols]"

text \<open>
  The characters of a string that stand between the code that switches bold on and the code
  that switches it off.
\<close>

fun emph :: "bool \<Rightarrow> nat \<Rightarrow> jsstring \<Rightarrow> jsstring" where
  "emph b n [] = []"
| "emph b (Suc n) (c # cs) = emph b n cs"
| "emph b 0 (c # cs) =
     (if take 4 (c # cs) = bold_open then emph True 3 cs
      else if take 5 (c # cs) = bold_close then emph False 4 cs
      else if b then c # emph b 0 cs else emph b 0 cs)"

definition emphasised :: "jsstring \<Rightarrow> jsstring" where
  "emphasised s = emph False 0 s"

text \<open>The message of \<open>applyFlags\<close> when exclusive options are combined.\<close>

definition one_of_message :: jsstring where
  "one_of_message = js ''May only specify one of untyped,dt,bundled''"

section \<open>Concrete inputs\<close>

definition program0 :: Program where
  "program0 = \<lparr>npm = False, yarn = False, num = Num 10, exact = False, repo = False,
     debug = False, bundled = False, dt = False, untyped = False, args = [js ''react'']\<rparr>"

definition no_solution :: Solution where
  "no_solution = \<lparr>feasible = False, result = 0, bounded = True, var_value = (\<lambda>k. None)\<rparr>"

text \<open>
  An environment whose solver reports infeasibility, with no terminal attached.  Its engine
  for the patterns left to the environment is never consulted by the runs below.
\<close>

definition env0 :: Env where
  "env0 = \<lparr>decode = (\<lambda>s. s), moment_format = (\<lambda>t. js ''2020-02-02''),
     moment_fromNow = (\<lambda>t. js ''a day ago''), chalk_bold = ansi_bold,
     Solve = (\<lambda>m. no_solution), stdout_columns = None, search = (\<lambda>q f n. Inr []),
     regexp_replace = (\<lambda>p r s. Inr s)\<rparr>"

text \<open>
  A terminal of 1000 columns, where every column of positive importance fits, and the answer
  of the solver there: the best column of each mutex group and every other such column.
\<close>

definition wide_solution :: Solution where
  "wide_solution = \<lparr>feasible = True, result = 256, bounded = True,
     var_value = (\<lambda>k. if k \<in> set (map nat_to_string [0, 1, 2, 3, 9, 10, 11, 12]) then Some 1 else None)\<rparr>"

definition env_wide :: Env where
  "env_wide = env0\<lparr>Solve := (\<lambda>m. wide_solution), stdout_columns := Some 1000\<rparr>"

definition widths0 :: "int list" where
  "widths0 = [3, 3, 10, 9, 5, 30, 30, 40, 60, 80, 10, 12, 30, 30]"

text \<open>Match annotations: some words matched, and the whole field matched.\<close>

definition partial_match :: "jsstring list \<Rightarrow> Description" where
  "partial_match ws = \<lparr>matchLevel = js ''partial'', fullyHighlighted = False, matchedWords = ws\<rparr>"

definition full_match :: "jsstring list \<Rightarrow> Description" where
  "full_match ws = \<lparr>matchLevel = js ''full'', fullyHighlighted = True, matchedWords = ws\<rparr>"

text \<open>Two records as the search service returns them, and their cells.\<close>

definition hit1 :: Hit where
  "hit1 = \<lparr>humanDownloadsLast30Days = Some (js ''12m''), popular = True,
     objectID = Some (js ''vue''),
     types = Some \<lparr>ts = Some (js ''included''), definitelyTyped = None\<rparr>,
     description = Some (js ''Vue 2 core''), modified = Some 0,
     homepage = Some (js ''vuejs.org''), repository = None,
     highlight_result = \<lparr>name_hl = Some (full_match [js ''vue'']),
                         description_hl = Some (partial_match [js ''vue'', js ''2''])\<rparr>\<rparr>"

definition hit2 :: Hit where
  "hit2 = \<lparr>humanDownloadsLast30Days = Some (js ''9k''), popular = False,
     objectID = Some (js ''react''),
     types = Some \<lparr>ts = Some (js ''definitely-typed''), definitelyTyped = Some (js ''@types/react'')\<rparr>,
     description = None, modified = None,
     homepage = None, repository = Some \<lparr>url = Some (js ''github.com/facebook/react'')\<rparr>,
     highlight_result = \<lparr>name_hl = None, description_hl = None\<rparr>\<rparr>"

definition rows12 :: "jsstring list list" where
  "rows12 =
     [[js ''12m'', fire, js ''vue'', js ''<bundled>'', js ''<inc>'', js ''npm install vue'',
       js ''yarn add vue'', js ''Vue 2 core'', js ''Vue 2 core'', js ''Vue 2 core'',
       js ''2020-02-02'', js ''a day ago'', js ''vuejs.org'', []],
      [js ''9k'', [], js ''react'', js ''@types/react'', js ''dt'',
       js ''npm install react && npm install -D @types/react'',
       js ''yarn add react && yarn add -D @types/react'', [], [], [],
       js ''2020-02-02'', js ''a day ago'', js ''github.com/facebook/react'',
       js ''github.com/facebook/react'']]"

text \<open>The first record again, with a plus sign among the matched words of its description.\<close>

definition hit3 :: Hit where
  "hit3 = hit1\<lparr>highlight_result :=
     \<lparr>name_hl = None, description_hl = Some (partial_match [js ''+''])\<rparr>\<rparr>"

section \<open>Lists, numerals and objects\<close>

lemma replicate_2: "replicate 2 x = [x, x]"
  by (simp add: numeral_2_eq_2)

lemma replicate_3: "replicate 3 x = [x, x, x]"
  by (simp add: numeral_3_eq_3)

lemma filter_isNonNullish_map_if:
  "filter_isNonNullish (map (\<lambda>x. if Q x then Some (g x) else None) xs) = map g (filter Q xs)"
  by (induction xs) auto

lemma enumerate_as_map: "enumerate 0 xs = map (\<lambda>i. (i, xs ! i)) [0..<length xs]"
  by (rule nth_equalityI) (simp_all add: nth_enumerate_eq)

lemma mapi_as_map: "mapi f xs = map (\<lambda>i. f (xs ! i) i) [0..<length xs]"
  by (simp add: mapi_def enumerate_as_map comp_def)

lemma select_indices:
  "filter_isNonNullish (mapi (\<lambda>c i. if P c i then Some i else None) cols)
     = [i \<leftarrow> [0..<length cols]. P (cols ! i) i]"
proof -
  have "mapi (\<lambda>c i. if P c i then Some i else None) cols
          = map (\<lambda>i. if P (cols ! i) i then Some (id i) else None) [0..<length cols]"
    by (simp add: mapi_as_map)
  then show ?thesis
    by (simp only: filter_isNonNullish_map_if) simp
qed

lemma length_slice0: "0 \<le> w \<Longrightarrow> length (slice0 v w) = min (length v) (nat w)"
  by (simp add: slice0_def)

lemma nat_to_string_nonempty: "nat_to_string n \<noteq> []"
  by (subst nat_to_string.simps) simp

lemma digit_unat: "d < 10 \<Longrightarrow> unat (of_nat (48 + d) :: jschar) = 48 + d"
  by (simp only: unat_of_nat) simp

lemma nat_to_string_digits: "c \<in> set (nat_to_string n) \<Longrightarrow> 48 \<le> unat c \<and> unat c \<le> 57"
proof (induction n rule: nat_to_string.induct)
  case (1 n)
  show ?case
  proof (cases "n < 10")
    case True
    with "1.prems" have "c = of_nat (48 + n)"
      by (subst (asm) nat_to_string.simps) (simp del: of_nat_add)
    with True show ?thesis by (simp only: digit_unat) simp
  next
    case False
    with "1.prems" have "c \<in> set (nat_to_string (n div 10)) \<or> c = of_nat (48 + n mod 10)"
      by (subst (asm) nat_to_string.simps) (auto simp del: of_nat_add)
    then show ?thesis
    proof
      assume "c \<in> set (nat_to_string (n div 10))"
      with False "1.IH" show ?thesis by simp
    next
      assume c: "c = of_nat (48 + n mod 10)"
      have "n mod 10 < 10" by simp
      then have "unat (of_nat (48 + n mod 10) :: jschar) = 48 + n mod 10" by (rule digit_unat)
      with c show ?thesis by (simp del: of_nat_add)
    qed
  qed
qed

lemma nat_to_string_inj: "nat_to_string n = nat_to_string m \<Longrightarrow> n = m"
proof (induction n arbitrary: m rule: nat_to_string.induct)
  case (1 n)
  have dig: "\<And>a b. a < 10 \<Longrightarrow> b < 10 \<Longrightarrow> (of_nat (48 + a) :: jschar) = of_nat (48 + b) \<Longrightarrow> a = b"
    by (metis digit_unat add_left_cancel)
  show ?case
  proof (cases "n < 10")
    case n: True
    show ?thesis
    proof (cases "m < 10")
      case True
      with n "1.prems" have "(of_nat (48 + n) :: jschar) = of_nat (48 + m)"
        by (simp add: nat_to_string.simps[of n] nat_to_string.simps[of m] del: of_nat_add)
      with n True show ?thesis by (rule dig)
    next
      case False
      with n "1.prems" have "nat_to_string (m div 10) = []"
        by (simp add: nat_to_string.simps[of n] nat_to_string.simps[of m] Cons_eq_append_conv del: of_nat_add)
      then show ?thesis by (simp add: nat_to_string_nonempty)
    qed
  next
    case n: False
    show ?thesis
    proof (cases "m < 10")
      case True
      with n "1.prems" have "nat_to_string (n div 10) = []"
        by (simp add: nat_to_string.simps[of n] nat_to_string.simps[of m] append_eq_Cons_conv del: of_nat_add)
      then show ?thesis by (simp add: nat_to_string_nonempty)
    next
      case False
      with n "1.prems" have eq: "nat_to_string (n div 10) = nat_to_string (m div 10)"
        and d: "(of_nat (48 + n mod 10) :: jschar) = of_nat (48 + m mod 10)"
        by (simp_all add: nat_to_string.simps[of n] nat_to_string.simps[of m] del: of_nat_add)
      from n eq "1.IH" have "n div 10 = m div 10" by simp
      moreover from d have "n mod 10 = m mod 10" by (intro dig) simp_all
      ultimately show ?thesis by (metis div_mult_mod_eq)
    qed
  qed
qed

lemma nat_to_string_eq_iff [simp]: "nat_to_string n = nat_to_string m \<longleftrightarrow> n = m"
  using nat_to_string_inj by blast

lemma not_numeral_string: "c \<in> set k \<Longrightarrow> unat c < 48 \<or> 57 < unat c \<Longrightarrow> nat_to_string n \<noteq> k"
  using nat_to_string_digits by fastforce

lemma width_not_numeral [simp]: "nat_to_string n \<noteq> js ''width''" "js ''width'' \<noteq> nat_to_string n"
  using not_numeral_string[of "0x77" "js ''width''" n] by (auto simp: js_def)

lemma importance_not_numeral [simp]: "nat_to_string n \<noteq> js ''importance''" "js ''importance'' \<noteq> nat_to_string n"
  using not_numeral_string[of "0x69" "js ''importance''" n] by (auto simp: js_def)

lemma width_not_importance [simp]: "js ''width'' \<noteq> js ''importance''" "js ''importance'' \<noteq> js ''width''"
  by (simp_all add: js_def)

subsection \<open>Objects\<close>

lemma map_of_fold_update:
  "map_of (fold (\<lambda>(k, v) ob. AList.update k v ob) b a) = map_of a ++ map_of (rev b)"
proof (induction b arbitrary: a)
  case Nil
  show ?case by simp
next
  case (Cons p b)
  obtain k v where p: "p = (k, v)" by (cases p)
  have "map_of (fold (\<lambda>(k, v) ob. AList.update k v ob) (p # b) a)
          = map_of (AList.update k v a) ++ map_of (rev b)"
    by (simp add: p Cons.IH)
  also have "\<dots> = map_of a ++ map_of (rev (p # b))"
    by (simp add: p update_conv' map_add_upd_left fun_eq_iff map_add_def split: option.splits)
  finally show ?case .
qed

lemma distinct_fold_update:
  "distinct (map fst a) \<Longrightarrow> distinct (map fst (fold (\<lambda>(k, v) ob. AList.update k v ob) b a))"
  by (induction b arbitrary: a) (auto simp: distinct_update)

lemma update_fresh: "k \<notin> fst ` set al \<Longrightarrow> AList.update k v al = al @ [(k, v)]"
  by (induction al) auto

lemma fold_update_fresh:
  "distinct (map fst b) \<Longrightarrow> fst ` set a \<inter> fst ` set b = {} \<Longrightarrow>
     fold (\<lambda>(k, v) ob. AList.update k v ob) b a = a @ b"
proof (induction b arbitrary: a)
  case Nil
  show ?case by simp
next
  case (Cons p b)
  obtain k v where p: "p = (k, v)" by (cases p)
  from Cons.prems have fresh: "k \<notin> fst ` set a" by (auto simp: p)
  have "fold (\<lambda>(k, v) ob. AList.update k v ob) (p # b) a
          = fold (\<lambda>(k, v) ob. AList.update k v ob) b (a @ [(k, v)])"
    by (simp add: p update_fresh[OF fresh])
  also have "\<dots> = (a @ [(k, v)]) @ b"
    using Cons.prems by (intro Cons.IH) (auto simp: p)
  finally show ?case by (simp add: p)
qed

lemma fromPairs_distinct: "distinct (map fst ps) \<Longrightarrow> fromPairs ps = ps"
  by (simp add: fromPairs_def fold_update_fresh)

lemma map_of_fromPairs: "map_of (fromPairs ps) = map_of (rev ps)"
  by (simp add: fromPairs_def map_of_fold_update)

lemma map_of_spread: "map_of (spread a b) = map_of a ++ map_of (rev b)"
  by (simp add: spread_def map_of_fold_update)

lemma distinct_fromPairs: "distinct (map fst (fromPairs ps))"
  by (simp add: fromPairs_def distinct_fold_update)

lemma distinct_spread: "distinct (map fst a) \<Longrightarrow> distinct (map fst (spread a b))"
  by (simp add: spread_def distinct_fold_update)

lemma set_set_keys [simp]: "set (set_keys xs) = set xs"
  by (induction xs) auto

lemma distinct_set_keys [simp]: "distinct (set_keys xs)"
  by (induction xs) auto

lemma set_filter_isNonNullish [simp]: "set (filter_isNonNullish xs) = {x. Some x \<in> set xs}"
  by (induction xs rule: filter_isNonNullish.induct) auto

section \<open>The model that \<open>pickColumns\<close> builds\<close>

lemma map_of_mutex_pairs:
  "map_of (rev (map (\<lambda>m. (m, F m)) ms)) k = (if k \<in> set ms then Some (F k) else None)"
  by (induction ms) (auto simp: map_add_def split: option.splits)

lemma distinct_mutexes_of [simp]: "distinct (mutexes_of cols)"
  by (simp add: mutexes_of_def)

lemma fromPairs_mutex_pairs:
  "fromPairs (map (\<lambda>m. (m, F m)) (mutexes_of cols)) = map (\<lambda>m. (m, F m)) (mutexes_of cols)"
  by (rule fromPairs_distinct) (simp add: comp_def)

lemma map_of_attrs:
  "map_of (attrs_of cols widths i) k =
     (if k \<in> set (mutexes_of cols) then Some (Num (if mutexGroup (cols ! i) = Some k then 1 else 0))
      else if k = nat_to_string i then Some (Num 1)
      else if k = js ''width'' then Some (case nth_opt widths i of None \<Rightarrow> NaN | Some w \<Rightarrow> Num (1 + w))
      else if k = js ''importance'' then Some (Num (importance (cols ! i)))
      else None)"
  by (simp add: attrs_of_def lp_variable_def map_of_spread map_of_fromPairs map_add_def
        fromPairs_mutex_pairs map_of_mutex_pairs)

lemma variables_lp_model:
  "variables (lp_model env cols widths)
     = map (\<lambda>i. (nat_to_string i, attrs_of cols widths i)) [0..<length cols]"
proof -
  have "mapi (lp_variable cols widths) cols
          = map (\<lambda>i. (nat_to_string i, attrs_of cols widths i)) [0..<length cols]"
    by (simp add: mapi_as_map attrs_of_def lp_variable_def)
  moreover have "distinct (map fst (map (\<lambda>i. (nat_to_string i, attrs_of cols widths i)) [0..<length cols]))"
    by (simp add: comp_def distinct_map inj_on_def)
  ultimately show ?thesis
    by (simp add: lp_model_def fromPairs_distinct)
qed

lemma lp_lhs_lp_model:
  "lp_lhs (lp_model env cols widths) x k
     = (\<Sum>i<length cols. attr_coef (attrs_of cols widths i) k * x (nat_to_string i))"
  by (simp add: lp_lhs_def variables_lp_model comp_def interv_sum_list_conv_sum_set_nat atLeast0LessThan)

lemma fold_update_keyed:
  "fold (\<lambda>z. AList.update (K z) (V z)) zs a
     = fold (\<lambda>(k, v). AList.update k v) (map (\<lambda>z. (K z, V z)) zs) a"
  by (simp add: fold_map comp_def)

lemma map_of_rev_keyed:
  "inj K \<Longrightarrow> map_of (rev (map (\<lambda>z. (K z, V z)) zs)) k
     = (if k \<in> K ` set zs then Some (V (inv K k)) else None)"
  by (induction zs) (auto simp: map_add_def split: option.splits)

lemma lp_constraints_alt:
  "lp_constraints env cols =
     fold (\<lambda>(k, v). AList.update k v) (map (\<lambda>i. (nat_to_string i, col_constraint cols i)) [0..<length cols])
       (fold (\<lambda>(k, v). AList.update k v) (map (\<lambda>m. (m, \<lparr>max_c = 1, name_c = None\<rparr>)) (mutexes_of cols))
          [(js ''width'', \<lparr>max_c = 1 + budget env, name_c = None\<rparr>)])"
proof -
  have A: "fold (\<lambda>(i, c) cs. AList.update (nat_to_string i) \<lparr>max_c = 1, name_c = Some (constraint_name c)\<rparr> cs)
          (enumerate 0 cols) a
        = fold (\<lambda>(k, v). AList.update k v)
            (map (\<lambda>i. (nat_to_string i, col_constraint cols i)) [0..<length cols]) a" for a
    by (simp add: enumerate_as_map fold_map comp_def col_constraint_def)
  have B: "fold (\<lambda>mutex cs. AList.update mutex \<lparr>max_c = 1, name_c = None\<rparr> cs) ms a
        = fold (\<lambda>(k, v). AList.update k v) (map (\<lambda>m. (m, \<lparr>max_c = 1, name_c = None\<rparr>)) ms) a" for ms a
    by (simp add: fold_map comp_def)
  show ?thesis
    unfolding lp_constraints_def Let_def A B ..
qed

lemma inj_nat_to_string: "inj nat_to_string"
  by (simp add: inj_on_def)

lemma map_of_lp_constraints:
  "map_of (lp_constraints env cols) k =
     (if k \<in> nat_to_string ` {..<length cols} then Some (col_constraint cols (inv nat_to_string k))
      else if k \<in> set (mutexes_of cols) then Some \<lparr>max_c = 1, name_c = None\<rparr>
      else if k = js ''width'' then Some \<lparr>max_c = 1 + budget env, name_c = None\<rparr>
      else None)"
  unfolding lp_constraints_alt map_of_fold_update
  by (simp add: map_add_def map_of_mutex_pairs
        map_of_rev_keyed[OF inj_nat_to_string] atLeast0LessThan)

lemma distinct_lp_constraints: "distinct (map fst (lp_constraints env cols))"
  unfolding lp_constraints_alt by (intro distinct_fold_update) simp

lemma lp_constraints_mem:
  "(k, c) \<in> set (lp_constraints env cols) \<longleftrightarrow> map_of (lp_constraints env cols) k = Some c"
  using distinct_lp_constraints by (simp add: map_of_eq_Some_iff)

lemma names_okD:
  assumes "names_ok cols"
  shows "js ''width'' \<notin> set (mutexes_of cols)"
    and "js ''importance'' \<notin> set (mutexes_of cols)"
    and "j < length cols \<Longrightarrow> nat_to_string j \<notin> set (mutexes_of cols)"
  using assms by (auto simp: names_ok_def)

lemma coef_width:
  "names_ok cols \<Longrightarrow> i < length widths \<Longrightarrow>
     attr_coef (attrs_of cols widths i) (js ''width'') = of_int (1 + widths ! i)"
  by (simp add: attr_coef_def map_of_attrs names_okD nth_opt_def)

lemma coef_importance:
  "names_ok cols \<Longrightarrow>
     attr_coef (attrs_of cols widths i) (js ''importance'') = of_int (importance (cols ! i))"
  by (simp add: attr_coef_def map_of_attrs names_okD)

lemma coef_mutex:
  "g \<in> set (mutexes_of cols) \<Longrightarrow>
     attr_coef (attrs_of cols widths i) g = (if mutexGroup (cols ! i) = Some g then 1 else 0)"
  by (simp add: attr_coef_def map_of_attrs)

lemma coef_col:
  "names_ok cols \<Longrightarrow> j < length cols \<Longrightarrow>
     attr_coef (attrs_of cols widths i) (nat_to_string j) = (if j = i then 1 else 0)"
  by (simp add: attr_coef_def map_of_attrs names_okD)

lemma lhs_width:
  "names_ok cols \<Longrightarrow> length widths = length cols \<Longrightarrow>
     lp_lhs (lp_model env cols widths) x (js ''width'')
       = (\<Sum>i<length cols. of_int (1 + widths ! i) * x (nat_to_string i))"
  by (simp add: lp_lhs_lp_model coef_width)

lemma lhs_importance:
  "names_ok cols \<Longrightarrow>
     lp_lhs (lp_model env cols widths) x (js ''importance'')
       = (\<Sum>i<length cols. of_int (importance (cols ! i)) * x (nat_to_string i))"
  by (simp add: lp_lhs_lp_model coef_importance)

lemma lhs_mutex:
  "g \<in> set (mutexes_of cols) \<Longrightarrow>
     lp_lhs (lp_model env cols widths) x g
       = (\<Sum>i<length cols. (if mutexGroup (cols ! i) = Some g then 1 else 0) * x (nat_to_string i))"
  by (simp add: lp_lhs_lp_model coef_mutex)

lemma lhs_col:
  "names_ok cols \<Longrightarrow> j < length cols \<Longrightarrow>
     lp_lhs (lp_model env cols widths) x (nat_to_string j) = x (nat_to_string j)"
proof -
  assume ok: "names_ok cols" and j: "j < length cols"
  have "lp_lhs (lp_model env cols widths) x (nat_to_string j)
          = (\<Sum>i<length cols. (if j = i then 1 else 0) * x (nat_to_string i))"
    by (simp add: lp_lhs_lp_model coef_col[OF ok j])
  also have "\<dots> = (\<Sum>i<length cols. if i = j then x (nat_to_string i) else 0)"
    by (intro sum.cong) auto
  also have "\<dots> = x (nat_to_string j)"
    using j by simp
  finally show ?thesis .
qed

lemma lp_int_lp_model:
  "i < length cols \<Longrightarrow> lp_int (lp_model env cols widths) (nat_to_string i)"
  by (auto simp: lp_int_def lp_model_def mapi_as_map nat_to_string_nonempty intro!: exI[of _ i])

lemma constraints_lp_model [simp]: "constraints (lp_model env cols widths) = lp_constraints env cols"
  by (simp add: lp_model_def)

lemma optimize_lp_model [simp]: "optimize (lp_model env cols widths) = js ''importance''"
  by (simp add: lp_model_def)

lemma opType_lp_model [simp]: "opType (lp_model env cols widths) = js ''max''"
  by (simp add: lp_model_def)

lemma lp_bounds_iff:
  assumes ok: "names_ok cols"
  shows "(\<forall>(k, c) \<in> set (lp_constraints env cols). L k \<le> real_of_int (max_c c)) \<longleftrightarrow>
           L (js ''width'') \<le> of_int (1 + budget env)
         \<and> (\<forall>g \<in> set (mutexes_of cols). L g \<le> 1)
         \<and> (\<forall>j < length cols. L (nat_to_string j) \<le> 1)"
    (is "?lhs \<longleftrightarrow> ?rhs")
proof
  assume l: ?lhs
  have "map_of (lp_constraints env cols) (js ''width'') = Some \<lparr>max_c = 1 + budget env, name_c = None\<rparr>"
    using names_okD(1)[OF ok] by (auto simp: map_of_lp_constraints)
  then have "(js ''width'', \<lparr>max_c = 1 + budget env, name_c = None\<rparr>) \<in> set (lp_constraints env cols)"
    by (simp add: lp_constraints_mem)
  with l have 1: "L (js ''width'') \<le> of_int (1 + budget env)" by fastforce
  have 2: "L g \<le> 1" if g: "g \<in> set (mutexes_of cols)" for g
  proof -
    have "g \<notin> nat_to_string ` {..<length cols}"
      using names_okD(3)[OF ok] g by auto
    with g have "map_of (lp_constraints env cols) g = Some \<lparr>max_c = 1, name_c = None\<rparr>"
      by (simp add: map_of_lp_constraints)
    then have "(g, \<lparr>max_c = 1, name_c = None\<rparr>) \<in> set (lp_constraints env cols)"
      by (simp add: lp_constraints_mem)
    with l show ?thesis by fastforce
  qed
  have 3: "L (nat_to_string j) \<le> 1" if j: "j < length cols" for j
  proof -
    from j have "map_of (lp_constraints env cols) (nat_to_string j) = Some (col_constraint cols j)"
      by (simp add: map_of_lp_constraints inv_f_f[OF inj_nat_to_string])
    then have "(nat_to_string j, col_constraint cols j) \<in> set (lp_constraints env cols)"
      by (simp add: lp_constraints_mem)
    with l show ?thesis by (fastforce simp: col_constraint_def)
  qed
  from 1 2 3 show ?rhs by blast
next
  assume r: ?rhs
  show ?lhs
  proof (clarify)
    fix k c assume "(k, c) \<in> set (lp_constraints env cols)"
    then have m: "map_of (lp_constraints env cols) k = Some c"
      by (simp add: lp_constraints_mem)
    show "L k \<le> real_of_int (max_c c)"
    proof (cases "k \<in> nat_to_string ` {..<length cols}")
      case True
      then obtain j where j: "j < length cols" "k = nat_to_string j" by auto
      with m have "max_c c = 1"
        by (auto simp: map_of_lp_constraints col_constraint_def)
      with r j show ?thesis by simp
    next
      case nk: False
      show ?thesis
      proof (cases "k \<in> set (mutexes_of cols)")
        case True
        with nk m have "max_c c = 1" by (auto simp: map_of_lp_constraints)
        with r True show ?thesis by simp
      next
        case False
        with nk m have "k = js ''width'' \<and> max_c c = 1 + budget env"
          by (auto simp: map_of_lp_constraints split: if_splits)
        with r show ?thesis by simp
      qed
    qed
  qed
qed

lemma lp_feasible_lp_model:
  assumes ok: "names_ok cols" and len: "length widths = length cols"
  shows "lp_feasible (lp_model env cols widths) x \<longleftrightarrow>
           (\<forall>i < length cols. 0 \<le> x (nat_to_string i) \<and> x (nat_to_string i) \<in> \<int>
                \<and> x (nat_to_string i) \<le> 1)
         \<and> (\<Sum>i<length cols. of_int (1 + widths ! i) * x (nat_to_string i)) \<le> of_int (1 + budget env)
         \<and> (\<forall>g \<in> set (mutexes_of cols).
               (\<Sum>i<length cols. (if mutexGroup (cols ! i) = Some g then 1 else 0) * x (nat_to_string i)) \<le> 1)"
proof -
  have vars: "(\<forall>(v, attrs) \<in> set (variables (lp_model env cols widths)).
                 0 \<le> x v \<and> (lp_int (lp_model env cols widths) v \<longrightarrow> x v \<in> \<int>))
              \<longleftrightarrow> (\<forall>i < length cols. 0 \<le> x (nat_to_string i) \<and> x (nat_to_string i) \<in> \<int>)"
    by (auto simp: variables_lp_model lp_int_lp_model)
  have bounds: "(\<forall>(k, c) \<in> set (constraints (lp_model env cols widths)).
                   lp_lhs (lp_model env cols widths) x k \<le> of_int (max_c c))
     \<longleftrightarrow> (\<Sum>i<length cols. of_int (1 + widths ! i) * x (nat_to_string i)) \<le> of_int (1 + budget env)
         \<and> (\<forall>g \<in> set (mutexes_of cols).
               (\<Sum>i<length cols. (if mutexGroup (cols ! i) = Some g then 1 else 0) * x (nat_to_string i)) \<le> 1)
         \<and> (\<forall>j < length cols. x (nat_to_string j) \<le> 1)"
    unfolding constraints_lp_model lp_bounds_iff[OF ok]
    by (simp add: lhs_width[OF ok len] lhs_mutex lhs_col[OF ok] cong: ball_cong)
  show ?thesis
    unfolding lp_feasible_def vars bounds by blast
qed

lemma zero_or_one: "(r :: real) \<in> \<int> \<Longrightarrow> 0 \<le> r \<Longrightarrow> r \<le> 1 \<Longrightarrow> r = 0 \<or> r = 1"
proof -
  assume "r \<in> \<int>" and b: "0 \<le> r" "r \<le> 1"
  then obtain k :: int where k: "r = of_int k" by (auto elim: Ints_cases)
  with b have "0 \<le> k" "k \<le> 1" by simp_all
  then have "k = 0 \<or> k = 1" by arith
  with k show ?thesis by auto
qed

lemma indicator_sum:
  fixes c :: "nat \<Rightarrow> real"
  assumes "\<forall>i<n. z i = 0 \<or> z i = 1"
  shows "(\<Sum>i<n. c i * z i) = (\<Sum>i\<in>{i. i < n \<and> z i \<noteq> 0}. c i)"
proof -
  have "(\<Sum>i<n. c i * z i) = (\<Sum>i\<in>{..<n}. if z i \<noteq> 0 then c i else 0)"
    using assms by (intro sum.cong) auto
  also have "\<dots> = (\<Sum>i\<in>{i \<in> {..<n}. z i \<noteq> 0}. c i)"
    by (rule sum.inter_filter[symmetric]) simp
  also have "{i \<in> {..<n}. z i \<noteq> 0} = {i. i < n \<and> z i \<noteq> 0}"
    by auto
  finally show ?thesis .
qed

lemma distinct_attrs_of: "distinct (map fst (attrs_of cols widths i))"
  by (simp add: attrs_of_def lp_variable_def distinct_spread distinct_fromPairs)

lemma lp_numeric_lp_model:
  assumes "length cols \<le> length widths"
  shows "lp_numeric (lp_model env cols widths)"
proof -
  have "c \<noteq> NaN" if i: "i < length cols" and kc: "(k, c) \<in> set (attrs_of cols widths i)" for i k c
  proof -
    from kc have "map_of (attrs_of cols widths i) k = Some c"
      using distinct_attrs_of by simp
    with i assms show ?thesis
      by (auto simp: map_of_attrs nth_opt_def split: if_splits)
  qed
  then show ?thesis
    by (force simp: lp_numeric_def variables_lp_model)
qed

lemma selected_indices:
  "snd (pickColumns env program cols widths) =
     (if feasible (Solve env (lp_model env cols widths))
      then [i \<leftarrow> [0..<length cols].
              solution_value (Solve env (lp_model env cols widths)) (nat_to_string i) \<noteq> 0]
      else [i \<leftarrow> [0..<length cols]. 25 \<le> importance (cols ! i)])"
proof -
  have "truthy_num (var_value r k) \<longleftrightarrow> solution_value r k \<noteq> 0" for r k
    by (simp add: truthy_num_def solution_value_def split: option.splits)
  then show ?thesis
    by (simp add: pickColumns_def Let_def select_indices)
qed

lemma sorted_selected: "sorted_wrt (<) (snd (pickColumns env program cols widths))"
  by (simp add: selected_indices sorted_wrt_filter)

lemma spec_feasible_indicator:
  assumes z: "\<forall>i<length cols. z i = 0 \<or> z i = (1 :: real)"
  shows "spec_feasible cols widths b {i. i < length cols \<and> z i \<noteq> 0} \<longleftrightarrow>
           (\<Sum>i<length cols. of_int (1 + widths ! i) * z i) \<le> of_int (1 + b)
         \<and> (\<forall>g \<in> set (mutexes_of cols).
               (\<Sum>i<length cols. (if mutexGroup (cols ! i) = Some g then 1 else 0) * z i) \<le> 1)"
proof -
  let ?S = "{i. i < length cols \<and> z i \<noteq> 0}"
  have w: "(\<Sum>i<length cols. of_int (1 + widths ! i) * z i) = of_int (\<Sum>i\<in>?S. 1 + widths ! i)"
    by (simp only: indicator_sum[OF z] of_int_sum)
  have g: "(\<Sum>i<length cols. (if mutexGroup (cols ! i) = Some g then 1 else 0) * z i)
             = real (card {i \<in> ?S. mutexGroup (cols ! i) = Some g})" for g
  proof -
    have "(\<Sum>i<length cols. (if mutexGroup (cols ! i) = Some g then 1 else 0) * z i)
            = (\<Sum>i\<in>?S. if mutexGroup (cols ! i) = Some g then 1 else 0)"
      by (rule indicator_sum[OF z])
    also have "\<dots> = (\<Sum>i\<in>{i \<in> ?S. mutexGroup (cols ! i) = Some g}. 1)"
      by (rule sum.inter_filter[symmetric]) simp
    also have "\<dots> = real (card {i \<in> ?S. mutexGroup (cols ! i) = Some g})"
      by simp
    finally show ?thesis .
  qed
  have w': "(real_of_int (\<Sum>i\<in>?S. 1 + widths ! i) \<le> real_of_int (1 + b))
              = ((\<Sum>i\<in>?S. 1 + widths ! i) \<le> b + 1)"
    by (simp only: of_int_le_iff) auto
  have g': "(real (card A) \<le> 1) = (card A \<le> 1)" for A :: "nat set"
    by simp
  show ?thesis
    unfolding spec_feasible_def w g w' g' by auto
qed

lemma total_indicator:
  assumes z: "\<forall>i<length cols. z i = 0 \<or> z i = (1 :: real)"
  shows "(\<Sum>i<length cols. of_int (importance (cols ! i)) * z i)
           = of_int (spec_total cols {i. i < length cols \<and> z i \<noteq> 0})"
  by (simp only: indicator_sum[OF z] of_int_sum spec_total_def)

lemma pickColumns_solves:
  assumes contract: "solver_contract (Solve env) (lp_model env cols widths)"
    and feas: "feasible (Solve env (lp_model env cols widths))"
    and len: "length widths = length cols"
    and ok: "names_ok cols"
  shows "spec_optimal cols widths (budget env) (set (snd (pickColumns env program cols widths)))"
proof -
  let ?m = "lp_model env cols widths"
  let ?x = "solution_value (Solve env ?m)"
  let ?z = "\<lambda>i. ?x (nat_to_string i)"
  let ?S = "{i. i < length cols \<and> ?z i \<noteq> 0}"
  have S: "set (snd (pickColumns env program cols widths)) = ?S"
    using feas by (auto simp: selected_indices)
  from contract feas len
  have fx: "lp_feasible ?m ?x"
    and best: "\<And>y. lp_feasible ?m y \<Longrightarrow>
                 lp_lhs ?m y (js ''importance'') \<le> lp_lhs ?m ?x (js ''importance'')"
    by (simp_all add: solver_contract_def lp_numeric_lp_model)
  from fx have z: "\<forall>i<length cols. ?z i = 0 \<or> ?z i = 1"
    by (simp add: lp_feasible_lp_model[OF ok len] zero_or_one)
  from fx have feasible_S: "spec_feasible cols widths (budget env) ?S"
    by (simp add: lp_feasible_lp_model[OF ok len] spec_feasible_indicator[OF z])
  have "spec_total cols T \<le> spec_total cols ?S" if T: "spec_feasible cols widths (budget env) T" for T
  proof -
    define y where "y k = (if k \<in> nat_to_string ` T then 1 else 0 :: real)" for k
    have yi: "y (nat_to_string i) = (if i \<in> T then 1 else 0)" for i
      by (auto simp: y_def)
    have zy: "\<forall>i<length cols. y (nat_to_string i) = 0 \<or> y (nat_to_string i) = 1"
      by (simp add: yi)
    from T have sub: "T \<subseteq> {..<length cols}" by (simp add: spec_feasible_def)
    then have Teq: "{i. i < length cols \<and> y (nat_to_string i) \<noteq> 0} = T"
      by (auto simp: yi)
    from T have "lp_feasible ?m y"
      using spec_feasible_indicator[OF zy, of widths "budget env"]
      by (simp add: lp_feasible_lp_model[OF ok len] Teq) (simp add: yi)
    then have "lp_lhs ?m y (js ''importance'') \<le> lp_lhs ?m ?x (js ''importance'')"
      by (rule best)
    then have "real_of_int (spec_total cols T) \<le> real_of_int (spec_total cols ?S)"
      by (simp only: lhs_importance[OF ok] total_indicator[OF zy] total_indicator[OF z] Teq)
    then show ?thesis by simp
  qed
  with feasible_S show ?thesis
    by (simp add: spec_optimal_def S)
qed

section \<open>The catalog\<close>

lemma length_columns [simp]: "length (columns env program) = 14"
  by (simp add: columns_def)

lemma importance_columns:
  "map importance (columns env program) = [3, 2, 100, 100, 80, - 1, - 1, 25, 30, 35, 1, 5, 10, - 1]"
  by (simp add: columns_def)

lemma mutexGroup_columns:
  "map mutexGroup (columns env program) =
     [None, None, None, Some (js ''types''), Some (js ''types''), None, None,
      Some (js ''desc''), Some (js ''desc''), Some (js ''desc''), None, None, None, None]"
  by (simp add: columns_def)

lemma types_not_desc [simp]: "js ''types'' \<noteq> js ''desc''" "js ''desc'' \<noteq> js ''types''"
  by (simp_all add: js_def)

lemma mutexes_of_columns: "mutexes_of (columns env program) = [js ''types'', js ''desc'']"
  by (simp add: mutexes_of_def mutexGroup_columns)

lemma names_ok_columns: "names_ok (columns env program)"
proof -
  have t: "js ''types'' \<noteq> nat_to_string i" for i
    using not_numeral_string[of "0x74" "js ''types''" i] by (auto simp: js_def)
  have d: "js ''desc'' \<noteq> nat_to_string i" for i
    using not_numeral_string[of "0x64" "js ''desc''" i] by (auto simp: js_def)
  have w: "js ''types'' \<noteq> js ''width''" "js ''types'' \<noteq> js ''importance''"
    "js ''desc'' \<noteq> js ''width''" "js ''desc'' \<noteq> js ''importance''"
    by (simp_all add: js_def)
  have "g \<notin> set (map nat_to_string [0..<n])" if "g = js ''types'' \<or> g = js ''desc''" for g n
    using that t[symmetric] d[symmetric] t d by (auto simp del: not_None_eq)
  with w show ?thesis
    unfolding names_ok_def mutexes_of_columns by simp
qed

lemma importance_nth: "i < 14 \<Longrightarrow> importance (columns env program ! i)
   = [3, 2, 100, 100, 80, - 1, - 1, 25, 30, 35, 1, 5, 10, - 1] ! i"
  using nth_map[of i "columns env program" importance] by (simp add: importance_columns)

lemma mutexGroup_nth: "i < 14 \<Longrightarrow> mutexGroup (columns env program ! i)
   =  [None, None, None, Some (js ''types''), Some (js ''types''), None, None,
      Some (js ''desc''), Some (js ''desc''), Some (js ''desc''), None, None, None, None] ! i"
  using nth_map[of i "columns env program" mutexGroup] by (simp add: mutexGroup_columns)

lemma all_less_14: "(\<forall>i<14. P (i::nat)) \<longleftrightarrow> P 0 \<and> P 1 \<and> P 2 \<and> P 3 \<and> P 4 \<and> P 5 \<and> P 6 \<and> P 7
   \<and> P 8 \<and> P 9 \<and> P 10 \<and> P 11 \<and> P 12 \<and> P 13"
  by (simp add: eval_nat_numeral All_less_Suc conj_comms conj_left_commute)

lemma sum_less_14: "(\<Sum>i<14. f (i::nat)) = (f 0 + f 1 + f 2 + f 3 + f 4 + f 5 + f 6 + f 7
   + f 8 + f 9 + f 10 + f 11 + f 12 + (f 13 :: real))"
  by (simp add: eval_nat_numeral)

lemma wide_value:
  "solution_value wide_solution (nat_to_string i) = (if i \<in> {0, 1, 2, 3, 9, 10, 11, 12} then 1 else 0)"
  by (simp add: solution_value_def wide_solution_def)

lemma contract_wide:
  "solver_contract (Solve env_wide) (lp_model env_wide (columns env_wide program0) widths0)"
proof -
  let ?cols = "columns env_wide program0"
  let ?m = "lp_model env_wide ?cols widths0"
  have len: "length widths0 = length ?cols" by (simp add: widths0_def)
  have ok: "names_ok ?cols" by (rule names_ok_columns)
  have b: "budget env_wide = 1000" by (simp add: budget_def env_wide_def env0_def)
  have s: "Solve env_wide ?m = wide_solution" by (simp add: env_wide_def env0_def)
  have fx: "lp_feasible ?m (solution_value wide_solution)"
    unfolding lp_feasible_lp_model[OF ok len]
    by (simp add: all_less_14 sum_less_14 wide_value b widths0_def mutexes_of_columns mutexGroup_nth)
  have best: "lp_lhs ?m y (js ''importance'') \<le> lp_lhs ?m (solution_value wide_solution) (js ''importance'')"
    if y: "lp_feasible ?m y" for y
  proof -
    from y have "(\<forall>i<14. 0 \<le> y (nat_to_string i) \<and> y (nat_to_string i) \<le> 1)"
      and "y (nat_to_string 3) + y (nat_to_string 4) \<le> 1"
      and "y (nat_to_string 7) + y (nat_to_string 8) + y (nat_to_string 9) \<le> 1"
      unfolding lp_feasible_lp_model[OF ok len]
      by (simp_all add: sum_less_14 mutexes_of_columns mutexGroup_nth)
    then show ?thesis
      unfolding lhs_importance[OF ok]
      by (simp add: all_less_14 sum_less_14 wide_value importance_nth)
  qed
  show ?thesis
    unfolding solver_contract_def s using fx best by simp
qed

section \<open>The optimal selection and the fallback\<close>

text \<open>
  Claim C1.  Whenever the solver, meeting its contract, reports a feasible answer for the
  model built from one width per column, the indices \<open>pickColumns\<close> returns are an optimal
  solution of the 0/1 program: the widths of the selected columns, one more each, sum to at
  most the budget plus one (the budget is the terminal width, or 80 when it is unavailable or
  zero), at most one column of each mutex group is selected, and no set of columns meeting
  these two conditions has a greater total importance.  The indices come in catalog order.
\<close>

theorem pickColumns_optimal:
  "solver_contract (Solve env) (lp_model env cols widths) \<Longrightarrow>
   feasible (Solve env (lp_model env cols widths)) \<Longrightarrow>
   length widths = length cols \<Longrightarrow>
   names_ok cols \<Longrightarrow>
     spec_optimal cols widths (budget env) (set (snd (pickColumns env program cols widths)))
     \<and> sorted_wrt (<) (snd (pickColumns env program cols widths))"
  by (simp add: pickColumns_solves sorted_selected)

theorem pickColumns_optimal_witness:
  "solver_contract (Solve env_wide) (lp_model env_wide (columns env_wide program0) widths0)
   \<and> feasible (Solve env_wide (lp_model env_wide (columns env_wide program0) widths0))
   \<and> length widths0 = length (columns env_wide program0)
   \<and> names_ok (columns env_wide program0)
   \<and> snd (pickColumns env_wide program0 (columns env_wide program0) widths0) = [0, 1, 2, 3, 9, 10, 11, 12]
   \<and> spec_optimal (columns env_wide program0) widths0 1000 {0, 1, 2, 3, 9, 10, 11, 12}"
proof -
  let ?cols = "columns env_wide program0"
  have c: "solver_contract (Solve env_wide) (lp_model env_wide ?cols widths0)"
    by (rule contract_wide)
  have f: "feasible (Solve env_wide (lp_model env_wide ?cols widths0))"
    by (simp add: env_wide_def env0_def wide_solution_def)
  have l: "length widths0 = length ?cols" by (simp add: widths0_def)
  have ok: "names_ok ?cols" by (rule names_ok_columns)
  have p: "snd (pickColumns env_wide program0 ?cols widths0) = [0, 1, 2, 3, 9, 10, 11, 12]"
    using f by (simp add: selected_indices env_wide_def env0_def wide_value upt_conv_Cons)
  have b: "budget env_wide = 1000" by (simp add: budget_def env_wide_def env0_def)
  from pickColumns_optimal[OF c f l ok, of program0] c f l ok p b show ?thesis
    by simp
qed

text \<open>
  Claim C2.  Whenever the solver reports infeasibility, \<open>pickColumns\<close> returns exactly the
  indices of the columns whose importance is at least 25, in catalog order, whatever the
  widths, the budget and the mutex groups are; it is a function of its inputs and throws
  nothing.
\<close>

theorem pickColumns_fallback:
  "\<not> feasible (Solve env (lp_model env cols widths)) \<Longrightarrow>
     snd (pickColumns env program cols widths)
       = [i \<leftarrow> [0..<length cols]. 25 \<le> importance (cols ! i)]"
  by (simp add: pickColumns_def Let_def select_indices)

theorem pickColumns_fallback_witness:
  "\<not> feasible (Solve env0 (lp_model env0 (columns env0 program0) widths0))
   \<and> snd (pickColumns env0 program0 (columns env0 program0) widths0) = [2, 3, 4, 7, 8, 9]"
proof -
  have f: "\<not> feasible (Solve env0 (lp_model env0 (columns env0 program0) widths0))"
    by (simp add: env0_def no_solution_def)
  from pickColumns_fallback[OF f, of program0] f show ?thesis
    by (simp add: upt_conv_Cons importance_nth)
qed

section \<open>Alignment\<close>

text \<open>
  Claim C3.  For a width that is not negative, the cell that \<open>formatColumn\<close> renders is the
  value cut to at most the width and then padded with spaces to exactly the width: on the
  left when the column is right-aligned, on the right otherwise (also when no alignment is
  given).  Its length is the width, and a value no longer than the width is kept whole.
\<close>

theorem formatColumn_cell_aligns:
  "0 \<le> width \<Longrightarrow>
     length (formatColumn_cell al width v) = nat width
   \<and> formatColumn_cell al width v =
       (if al = Some AlignRight
        then replicate (nat width - length (take (nat width) v)) space @ take (nat width) v
        else take (nat width) v @ replicate (nat width - length (take (nat width) v)) space)
   \<and> (length v \<le> nat width \<longrightarrow>
        formatColumn_cell al width v =
          (if al = Some AlignRight then replicate (nat width - length v) space @ v
           else v @ replicate (nat width - length v) space))"
  by (auto simp: formatColumn_cell_def slice0_def padStart_def padEnd_def Let_def)

theorem formatColumn_cell_aligns_witness:
  "(0 :: int) \<le> 5
   \<and> formatColumn_cell (Some AlignRight) 5 (js ''ab'') = js ''   ab''
   \<and> length (formatColumn_cell (Some AlignRight) 5 (js ''ab'')) = 5"
  using formatColumn_cell_aligns[of 5 "Some AlignRight" "js ''ab''"]
  by (simp add: js_def space_def replicate_3)

section \<open>Columns, widths and the table\<close>

lemma mapE_Inr_map: "(\<And>x. x \<in> set xs \<Longrightarrow> f x = Inr (g x)) \<Longrightarrow> mapE f xs = Inr (map g xs)"
  by (induction xs) auto

lemma mapE_Inr_D:
  "mapE f xs = Inr ys \<Longrightarrow> length ys = length xs \<and> (\<forall>k<length xs. f (xs ! k) = Inr (ys ! k))"
proof (induction xs arbitrary: ys)
  case Nil
  then show ?case by simp
next
  case (Cons x xs)
  from Cons.prems obtain y ys' where y: "f x = Inr y" and r: "mapE f xs = Inr ys'" and ys: "ys = y # ys'"
    by (auto split: sum.splits)
  from Cons.IH[OF r] y ys show ?case
    by (auto simp: nth_Cons')
qed

lemma mapE_Inr_I:
  "length ys = length xs \<Longrightarrow> (\<forall>k<length xs. f (xs ! k) = Inr (ys ! k)) \<Longrightarrow> mapE f xs = Inr ys"
proof (induction ys xs rule: list_induct2)
  case Nil
  show ?case by simp
next
  case (Cons y ys x xs)
  from Cons.prems have "f x = Inr y" by auto
  moreover from Cons.prems have "\<forall>k<length xs. f (xs ! k) = Inr (ys ! k)" by fastforce
  ultimately show ?case using Cons.IH by simp
qed

lemma mapE_Inr_iff:
  "mapE f xs = Inr ys \<longleftrightarrow> length ys = length xs \<and> (\<forall>k<length xs. f (xs ! k) = Inr (ys ! k))"
  using mapE_Inr_D mapE_Inr_I by blast

lemma mapE_Inl_no_Inr: "mapE f xs = Inl e \<Longrightarrow> \<exists>x \<in> set xs. f x = Inl e"
  by (induction xs) (auto split: sum.splits)

lemma length_formatColumn_cell: "0 \<le> w \<Longrightarrow> length (formatColumn_cell al w v) = nat w"
  by (auto simp: formatColumn_cell_def slice0_def padStart_def padEnd_def Let_def)

lemma length_toUpperCase [simp]: "length (toUpperCase s) = length s"
  by (simp add: toUpperCase_def)

lemma lodash_max_Max: "lodash_max xs = (if xs = [] then None else Some (Max (set xs)))"
proof (cases xs)
  case Nil
  then show ?thesis by (simp add: lodash_max_def)
next
  case (Cons a list)
  then show ?thesis
    using Max.set_eq_fold[of a list] by (simp add: lodash_max_def)
qed

lemma formatColumn_strings:
  "strs \<noteq> [] \<Longrightarrow>
     formatColumn (map Some strs) spec
       = Inr (map (formatColumn_cell (align spec) (column_width spec strs)) strs)"
proof -
  assume ne: "strs \<noteq> []"
  have "mapE (\<lambda>v. case v of None \<Rightarrow> Inl TypeError | Some s \<Rightarrow> Inr s) (map Some strs)
          = Inr (map the (map Some strs))"
    by (rule mapE_Inr_map) auto
  then have m: "mapE (\<lambda>v. case v of None \<Rightarrow> Inl TypeError | Some s \<Rightarrow> Inr s) (map Some strs) = Inr strs"
    by (simp add: comp_def)
  from ne have "lodash_max (map (\<lambda>v. int (length v)) strs)
      = Some (Max (set (map (\<lambda>v. int (length v)) strs)))"
    by (simp add: lodash_max_Max)
  with m show ?thesis
    by (simp add: formatColumn_def column_width_def Let_def)
qed

lemma column_width_natural:
  assumes "\<forall>m. maxWidth spec = Some m \<longrightarrow> 1 \<le> m"
  shows "column_width spec (toUpperCase (header spec) # vals)
           = spec_natural_width (header spec) vals (maxWidth spec)"
  using assms
  by (auto simp: column_width_def spec_natural_width_def Let_def split: option.splits)

lemma column_width_nonneg:
  assumes "\<forall>m. maxWidth spec = Some m \<longrightarrow> 0 \<le> m" "strs \<noteq> []"
  shows "0 \<le> column_width spec strs"
proof -
  from assms(2) obtain s where "s \<in> set strs" by (cases strs) auto
  then have "int (length s) \<le> Max (set (map (\<lambda>v. int (length v)) strs))"
    by (intro Max_ge) auto
  then have "0 \<le> Max (set (map (\<lambda>v. int (length v)) strs))" by linarith
  with assms(1) show ?thesis
    by (auto simp: column_width_def Let_def split: option.splits)
qed

lemma map_index: "map f xs = map (\<lambda>i. f (xs ! i)) [0..<length xs]"
  by (rule nth_equalityI) simp_all

lemma table_column_strings:
  assumes "\<forall>r\<in>set rows. j < length r"
  shows "table_column (map (map Some) rows) (cols ! j) j = map Some (column_strings cols rows j)"
  using assms by (simp add: table_column_def column_strings_def nth_opt_def)

lemma length_column_strings [simp]: "length (column_strings cols rows j) = Suc (length rows)"
  by (simp add: column_strings_def)

lemma aligned_column:
  "map (formatColumn_cell (align (cols ! j)) (column_width (cols ! j) (column_strings cols rows j)))
     (column_strings cols rows j)
   = map (aligned_cell cols rows j) [0..<Suc (length rows)]"
  by (rule nth_equalityI) (simp_all add: aligned_cell_def del: upt_Suc)

lemma mapE_map: "mapE f (map g xs) = mapE (\<lambda>x. f (g x)) xs"
  by (induction xs) (simp_all split: sum.splits)

lemma formattedCols_strings:
  assumes wf: "\<forall>r\<in>set rows. length r = length cols"
  shows "printTable_formattedCols cols (map (map Some) rows)
           = Inr (map (\<lambda>j. map (aligned_cell cols rows j) [0..<Suc (length rows)]) [0..<length cols])"
proof -
  have "mapE (\<lambda>j. formatColumn (table_column (map (map Some) rows) (cols ! j) j) (cols ! j)) [0..<length cols]
          = Inr (map (\<lambda>j. map (aligned_cell cols rows j) [0..<Suc (length rows)]) [0..<length cols])"
  proof (rule mapE_Inr_map)
    fix j assume "j \<in> set [0..<length cols]"
    with wf have j: "\<forall>r\<in>set rows. j < length r" by simp
    have ne: "column_strings cols rows j \<noteq> []" by (simp add: column_strings_def)
    show "formatColumn (table_column (map (map Some) rows) (cols ! j) j) (cols ! j)
        = Inr (map (aligned_cell cols rows j) [0..<Suc (length rows)])"
      by (simp only: table_column_strings[OF j] formatColumn_strings[OF ne] aligned_column)
  qed
  then show ?thesis
    by (simp add: printTable_formattedCols_def enumerate_as_map mapE_map)
qed

lemma widths_strings:
  "printTable_widths (map (\<lambda>j. map (aligned_cell cols rows j) [0..<Suc (length rows)]) [0..<length cols])
     = Inr (printed_widths cols rows)"
proof -
  have "printTable_widths (map (\<lambda>j. map (aligned_cell cols rows j) [0..<Suc (length rows)]) [0..<length cols])
     = Inr (map (\<lambda>c. int (length (hd c))) (map (\<lambda>j. map (aligned_cell cols rows j) [0..<Suc (length rows)]) [0..<length cols]))"
    unfolding printTable_widths_def
    by (rule mapE_Inr_map) (auto simp: upt_conv_Cons simp del: upt_Suc)
  then show ?thesis
    by (simp add: printed_widths_def comp_def upt_conv_Cons del: upt_Suc)
qed

lemma printed_width_natural:
  assumes "j < length cols" "\<forall>m. maxWidth (cols ! j) = Some m \<longrightarrow> 1 \<le> m"
  shows "int (length (aligned_cell cols rows j 0))
           = spec_natural_width (header (cols ! j)) (map (\<lambda>r. r ! j) rows) (maxWidth (cols ! j))"
proof -
  have w: "column_width (cols ! j) (column_strings cols rows j)
      = spec_natural_width (header (cols ! j)) (map (\<lambda>r. r ! j) rows) (maxWidth (cols ! j))"
    unfolding column_strings_def by (rule column_width_natural) (rule assms(2))
  have "0 \<le> column_width (cols ! j) (column_strings cols rows j)"
    using assms(2) by (intro column_width_nonneg) (auto simp: column_strings_def)
  then show ?thesis
    by (simp add: aligned_cell_def length_formatColumn_cell w[symmetric])
qed

text \<open>
  Claim C8.  For rows with one string per column, ASCII headers and maximal widths of at
  least one, the widths \<open>printTable\<close> computes are the natural widths: for each column the
  greatest length among its header and its values, capped by the maximal width of the column
  when it has one.  The width of a column depends on that column alone, and with no row it is
  the width of the header, capped.
\<close>

theorem natural_width:
  "\<forall>r\<in>set rows. length r = length cols \<Longrightarrow>
   \<forall>c\<in>set cols. ascii (header c) \<and> (\<forall>m. maxWidth c = Some m \<longrightarrow> 1 \<le> m) \<Longrightarrow>
     bindE (printTable_formattedCols cols (map (map Some) rows)) printTable_widths
       = Inr (map (\<lambda>j. spec_natural_width (header (cols ! j)) (map (\<lambda>r. r ! j) rows) (maxWidth (cols ! j)))
                [0..<length cols])"
proof -
  assume wf: "\<forall>r\<in>set rows. length r = length cols"
    and c: "\<forall>c\<in>set cols. ascii (header c) \<and> (\<forall>m. maxWidth c = Some m \<longrightarrow> 1 \<le> m)"
  have "printed_widths cols rows
      = map (\<lambda>j. spec_natural_width (header (cols ! j)) (map (\<lambda>r. r ! j) rows) (maxWidth (cols ! j)))
                [0..<length cols]"
    unfolding printed_widths_def
    using c by (intro map_cong refl printed_width_natural) auto
  then show ?thesis
    by (simp add: bindE_def formattedCols_strings[OF wf] widths_strings del: upt_Suc)
qed

lemma mapE_cong: "(\<And>x. x \<in> set xs \<Longrightarrow> f x = g x) \<Longrightarrow> mapE f xs = mapE g xs"
  by (induction xs) (simp_all split: sum.splits)

lemma nth_opt_in [simp]: "i < length xs \<Longrightarrow> nth_opt xs i = Some (xs ! i)"
  by (simp add: nth_opt_def)

lemma highlight_column_rendered:
  assumes j: "j < length cols"
  shows "highlight_column cols
           (map (\<lambda>j. map (aligned_cell cols rows j) [0..<Suc (length rows)]) [0..<length cols]) hits j
         = mapE (rendered_cell cols rows hits j) [0..<Suc (length rows)]"
proof (cases "highlight (cols ! j)")
  case None
  have "mapE (rendered_cell cols rows hits j) [0..<Suc (length rows)]
          = Inr (map (aligned_cell cols rows j) [0..<Suc (length rows)])"
    by (rule mapE_Inr_map) (simp add: rendered_cell_def None)
  with j None show ?thesis
    by (simp add: highlight_column_def del: upt_Suc)
next
  case (Some hl)
  have "mapE (\<lambda>(i, v). if i > 0 then hl v (nth_opt hits (i - 1)) else Inr v)
          (enumerate 0 (map (aligned_cell cols rows j) [0..<Suc (length rows)]))
        = mapE (rendered_cell cols rows hits j) [0..<Suc (length rows)]"
  proof -
    have "enumerate 0 (map (aligned_cell cols rows j) [0..<Suc (length rows)])
            = map (\<lambda>i. (i, aligned_cell cols rows j i)) [0..<Suc (length rows)]"
      by (rule nth_equalityI) (simp_all add: nth_enumerate_eq del: upt_Suc)
    then show ?thesis
      unfolding mapE_map
      by (simp only: mapE_map) (rule mapE_cong, simp add: rendered_cell_def Some del: upt_Suc)
  qed
  with j Some show ?thesis
    by (simp add: highlight_column_def del: upt_Suc)
qed

lemma pickColumns_logs:
  "fst (pickColumns env program cols widths) =
     (if debug program
      then [DebugModel (lp_model env cols widths), DebugResult (Solve env (lp_model env cols widths))]
      else [])"
  by (simp add: pickColumns_def Let_def)

lemma pickColumns_range: "j \<in> set (snd (pickColumns env program cols widths)) \<Longrightarrow> j < length cols"
  by (auto simp: selected_indices split: if_splits)

lemma printTable_strings:
  assumes wf: "\<forall>r\<in>set rows. length r = length cols"
  shows "printTable env program cols (map (map Some) rows) hits =
           (case mapE (\<lambda>j. mapE (rendered_cell cols rows hits j) [0..<Suc (length rows)])
                   (snd (pickColumns env program cols (printed_widths cols rows))) of
              Inl e \<Rightarrow> (fst (pickColumns env program cols (printed_widths cols rows)), Some e)
            | Inr pickedCols \<Rightarrow>
                (fst (pickColumns env program cols (printed_widths cols rows))
                   @ map (\<lambda>i. Log (table_line pickedCols i)) [0..<Suc (length rows)], None))"
proof -
  have "mapE (highlight_column cols
            (map (\<lambda>j. map (aligned_cell cols rows j) [0..<Suc (length rows)]) [0..<length cols]) hits)
          (snd (pickColumns env program cols (printed_widths cols rows)))
        = mapE (\<lambda>j. mapE (rendered_cell cols rows hits j) [0..<Suc (length rows)])
            (snd (pickColumns env program cols (printed_widths cols rows)))"
    by (rule mapE_cong) (simp add: highlight_column_rendered pickColumns_range del: upt_Suc)
  then show ?thesis
    by (simp add: printTable_def formattedCols_strings[OF wf] widths_strings case_prod_beta
          del: upt_Suc split: sum.splits)
qed

lemma table_line_cells:
  assumes len: "length pickedCols = length sel"
    and cells: "\<forall>p<length sel. i < length (pickedCols ! p) \<and> pickedCols ! p ! i = cells (sel ! p) i"
  shows "table_line pickedCols i = join (js '' '') (map (\<lambda>j. cells j i) sel)"
proof -
  have "map (\<lambda>c. case nth_opt c i of None \<Rightarrow> [] | Some v \<Rightarrow> v) pickedCols = map (\<lambda>j. cells j i) sel"
    using len cells by (intro nth_equalityI) simp_all
  then show ?thesis by (simp add: table_line_def)
qed

lemma printTable_outcome:
  assumes wf: "\<forall>r\<in>set rows. length r = length cols"
    and sel: "sel = snd (pickColumns env program cols (printed_widths cols rows))"
    and res: "printTable env program cols (map (map Some) rows) hits = (out, err)"
  shows "(err = None \<longleftrightarrow>
            (\<forall>j\<in>set sel. \<forall>i\<le>length rows. \<exists>s. rendered_cell cols rows hits j i = Inr s))
       \<and> (err \<noteq> None \<longrightarrow> (\<forall>l. Log l \<notin> set out))
       \<and> (err = None \<longrightarrow>
            (\<exists>cells. (\<forall>j\<in>set sel. \<forall>i\<le>length rows. rendered_cell cols rows hits j i = Inr (cells j i))
               \<and> out = fst (pickColumns env program cols (printed_widths cols rows))
                        @ map (\<lambda>i. Log (join (js '' '') (map (\<lambda>j. cells j i) sel))) [0..<length rows + 1]))"
proof (cases "mapE (\<lambda>j. mapE (rendered_cell cols rows hits j) [0..<Suc (length rows)]) sel")
  case (Inl e)
  with res sel have o: "out = fst (pickColumns env program cols (printed_widths cols rows))" and e: "err = Some e"
    by (simp_all add: printTable_strings[OF wf])
  from Inl obtain j where j: "j \<in> set sel" and "mapE (rendered_cell cols rows hits j) [0..<Suc (length rows)] = Inl e"
    by (auto dest: mapE_Inl_no_Inr)
  then obtain i where i: "i \<in> set [0..<Suc (length rows)]" and ri: "rendered_cell cols rows hits j i = Inl e"
    by (auto dest!: mapE_Inl_no_Inr simp del: upt_Suc)
  from i have "i \<le> length rows" by (simp del: upt_Suc)
  moreover from ri have "\<not> (\<exists>s. rendered_cell cols rows hits j i = Inr s)" by simp
  ultimately have "\<not> (\<forall>j\<in>set sel. \<forall>i\<le>length rows. \<exists>s. rendered_cell cols rows hits j i = Inr s)"
    using j by blast
  with o e show ?thesis
    by (auto simp: pickColumns_logs)
next
  case (Inr pickedCols)
  with res sel have o: "out = fst (pickColumns env program cols (printed_widths cols rows))
           @ map (\<lambda>i. Log (table_line pickedCols i)) [0..<Suc (length rows)]" and e: "err = None"
    by (simp_all add: printTable_strings[OF wf])
  from mapE_Inr_D[OF Inr] have len: "length pickedCols = length sel"
    and col: "\<forall>p<length sel. mapE (rendered_cell cols rows hits (sel ! p)) [0..<Suc (length rows)] = Inr (pickedCols ! p)"
    by simp_all
  have cell: "length (pickedCols ! p) = Suc (length rows)
            \<and> (\<forall>i\<le>length rows. rendered_cell cols rows hits (sel ! p) i = Inr (pickedCols ! p ! i))"
    if "p < length sel" for p
    using mapE_Inr_D[OF col[rule_format, OF that]] by (auto simp: less_Suc_eq_le simp del: upt_Suc)
  define cells where "cells j i = projr (rendered_cell cols rows hits j i)" for j i
  have r: "rendered_cell cols rows hits j i = Inr (cells j i)" if "j \<in> set sel" "i \<le> length rows" for j i
  proof -
    from that(1) obtain p where "p < length sel" "j = sel ! p" by (auto simp: in_set_conv_nth)
    with cell[of p] that(2) show ?thesis by (simp add: cells_def)
  qed
  have "table_line pickedCols i = join (js '' '') (map (\<lambda>j. cells j i) sel)" if "i \<le> length rows" for i
  proof (rule table_line_cells[OF len], intro allI impI)
    fix p assume p: "p < length sel"
    with cell[of p] that show "i < length (pickedCols ! p) \<and> pickedCols ! p ! i = cells (sel ! p) i"
      by (simp add: cells_def)
  qed
  then have "map (\<lambda>i. Log (table_line pickedCols i)) [0..<Suc (length rows)]
      = map (\<lambda>i. Log (join (js '' '') (map (\<lambda>j. cells j i) sel))) [0..<length rows + 1]"
    by (auto simp del: upt_Suc simp: less_Suc_eq_le)
  with o e r show ?thesis
    by (intro conjI impI) (auto simp del: upt_Suc)
qed

section \<open>Highlighting\<close>

lemma highlightValue_absent: "highlightValue env val None = Inr val"
  by (simp add: highlightValue_def)

lemma highlightValue_none: "matchLevel d = js ''none'' \<Longrightarrow> highlightValue env val (Some d) = Inr val"
  by (simp add: highlightValue_def)

lemma highlightValue_full:
  "matchLevel d \<noteq> js ''none'' \<Longrightarrow> fullyHighlighted d \<Longrightarrow>
     highlightValue env val (Some d) = Inr (chalk_bold env val)"
  by (simp add: highlightValue_def)

lemma literal_vue [simp]: "pattern_kind_of (js ''vue'') = Literal"
  by (simp add: pattern_kind_of_def js_def syntax_chars_def)

lemma literal_2 [simp]: "pattern_kind_of (js ''2'') = Literal"
  by (simp add: pattern_kind_of_def js_def syntax_chars_def)

lemma literal_react [simp]: "pattern_kind_of (js ''react'') = Literal"
  by (simp add: pattern_kind_of_def js_def syntax_chars_def)

lemma invalid_plus [simp]: "pattern_kind_of (js ''+'') = Invalid"
  by (simp add: pattern_kind_of_def js_def syntax_chars_def)

lemma strip_numeral [simp]: "strip (numeral k) (c # cs) = strip (pred_numeral k) cs"
  by (simp add: numeral_eq_Suc)

lemma strip_one [simp]: "strip 1 (c # cs) = strip 0 cs"
  using strip.simps(2)[of 0 c cs] by simp

lemma emph_numeral [simp]: "emph b (numeral k) (c # cs) = emph b (pred_numeral k) cs"
  by (simp add: numeral_eq_Suc)

lemma emph_one [simp]: "emph b 1 (c # cs) = emph b 0 cs"
  using emph.simps(2)[of b 0 c cs] by simp

lemma chalk_env0 [simp]: "chalk_bold env0 = ansi_bold" "chalk_bold env_wide = ansi_bold"
  by (simp_all add: env0_def env_wide_def)

text \<open>
  Claim C5 says that every occurrence of a matched word is wrapped in emphasis and all other
  characters are left unchanged.  The code replaces an occurrence by the emphasised word as
  the annotation spells it: in \<open>React hooks\<close> with the matched word \<open>react\<close> the capital
  letter is lost.
\<close>

theorem highlightValue_replaces_by_word:
  "highlightValue env0 (js ''React hooks'') (Some (partial_match [js ''react'']))
     = Inr (bold_open @ js ''react'' @ bold_close @ js '' hooks'')
   \<and> bold_open @ js ''react'' @ bold_close @ js '' hooks''
        \<noteq> bold_open @ js ''React'' @ bold_close @ js '' hooks''"
  by (simp add: highlightValue_def partial_match_def replace_ig_def)
     (simp add: js_def replace_all_ci_def ci_prefix_def canonicalize_def ansi_bold_def
        bold_open_def bold_close_def)

text \<open>
  Claim C4 says that highlighting keeps the number of visible characters.  The code breaks
  it: each matched word is searched for in the value as decorated so far, escape codes
  included.  For the value \<open>vue 2\<close> with the matched words \<open>vue\<close> and \<open>2\<close>, the digit
  is then found twice inside the code that ends the emphasis of the first word, which is torn
  apart, and of the five characters of the value ten remain visible.
\<close>

theorem highlightValue_resizes:
  "highlightValue env0 (js ''vue 2'') (Some (partial_match [js ''vue'', js ''2'']))
     = Inr (bold_open @ js ''vue'' @ [0x1B, 0x5B] @ ansi_bold (js ''2'') @ ansi_bold (js ''2'')
            @ js ''m '' @ ansi_bold (js ''2''))
   \<and> length (visible (bold_open @ js ''vue'' @ [0x1B, 0x5B] @ ansi_bold (js ''2'') @ ansi_bold (js ''2'')
            @ js ''m '' @ ansi_bold (js ''2''))) = 10
   \<and> length (js ''vue 2'') = 5"
proof (intro conjI)
  show "highlightValue env0 (js ''vue 2'') (Some (partial_match [js ''vue'', js ''2'']))
     = Inr (bold_open @ js ''vue'' @ [0x1B, 0x5B] @ ansi_bold (js ''2'') @ ansi_bold (js ''2'')
            @ js ''m '' @ ansi_bold (js ''2''))"
    by (simp add: highlightValue_def partial_match_def replace_ig_def)
       (simp add: js_def replace_all_ci_def ci_prefix_def canonicalize_def ansi_bold_def
          bold_open_def bold_close_def)
  show "length (visible (bold_open @ js ''vue'' @ [0x1B, 0x5B] @ ansi_bold (js ''2'') @ ansi_bold (js ''2'')
            @ js ''m '' @ ansi_bold (js ''2''))) = 10"
    by (simp add: visible_def js_def ansi_bold_def bold_open_def bold_close_def)
  show "length (js ''vue 2'') = 5"
    by (simp add: js_def)
qed

lemma highlight_column_plain:
  "i < length cols \<Longrightarrow> i < length formattedCols \<Longrightarrow> highlight (cols ! i) = None \<Longrightarrow>
     highlight_column cols formattedCols hits i = Inr (formattedCols ! i)"
  by (simp add: highlight_column_def)

lemma highlight_column_cells:
  assumes "i < length cols" "i < length formattedCols" "highlight (cols ! i) = Some hl"
  shows "highlight_column cols formattedCols hits i = Inr cells \<longleftrightarrow>
           length cells = length (formattedCols ! i)
           \<and> (\<forall>j<length cells.
                 (if j = 0 then Inr (formattedCols ! i ! j)
                  else hl (formattedCols ! i ! j) (nth_opt hits (j - 1))) = Inr (cells ! j))"
proof -
  have "highlight_column cols formattedCols hits i
          = mapE (\<lambda>(j, v). if j > 0 then hl v (nth_opt hits (j - 1)) else Inr v)
              (enumerate 0 (formattedCols ! i))"
    using assms by (simp add: highlight_column_def)
  moreover have "(if 0 < k then hl v h else Inr v) = (if k = 0 then Inr v else hl v h)"
    for k :: nat and v h
    by simp
  ultimately show ?thesis
    by (simp add: mapE_Inr_iff nth_enumerate_eq cong: conj_cong)
qed

lemma canonicalize_space [simp]: "canonicalize c = space \<longleftrightarrow> c = space" "canonicalize space = space"
  by (auto simp: canonicalize_def space_def diff_eq_eq)

lemma ci_prefix_space:
  assumes "p \<noteq> []" "space \<notin> set p"
  shows "\<not> ci_prefix p (space # s)"
proof
  assume "ci_prefix p (space # s)"
  then have "map canonicalize (take (length p) (space # s)) = map canonicalize p"
    by (simp add: ci_prefix_def)
  with assms(1) have "canonicalize (hd p) = space"
    by (cases p) auto
  with assms show False
    by (cases p) auto
qed

lemma ci_prefix_pad:
  assumes "p \<noteq> []" "space \<notin> set p"
  shows "ci_prefix p (s @ replicate k space) \<longleftrightarrow> ci_prefix p s"
proof (cases "length p \<le> length s")
  case True
  then show ?thesis by (simp add: ci_prefix_def)
next
  case False
  have "\<not> ci_prefix p (s @ replicate k space)"
  proof
    assume c: "ci_prefix p (s @ replicate k space)"
    then have l: "length p \<le> length s + k"
      and m: "map canonicalize (take (length p) (s @ replicate k space)) = map canonicalize p"
      by (simp_all add: ci_prefix_def)
    from False have n: "length s < length p" by simp
    from m have "map canonicalize (take (length p) (s @ replicate k space)) ! length s
                   = map canonicalize p ! length s"
      by simp
    with n l have "canonicalize (p ! length s) = space"
      by (simp add: nth_append)
    with n assms(2) show False
      by (auto simp: in_set_conv_nth)
  qed
  with False show ?thesis by (simp add: ci_prefix_def)
qed

lemma replace_lit_spaces:
  "p \<noteq> [] \<Longrightarrow> space \<notin> set p \<Longrightarrow>
     replace_lit p r (replicate k space @ s) = replicate k space @ replace_lit p r s"
  by (induction k) (simp_all add: ci_prefix_space)

lemma replace_lit_pad:
  "p \<noteq> [] \<Longrightarrow> space \<notin> set p \<Longrightarrow>
     replace_lit p r (s @ replicate k space) = replace_lit p r s @ replicate k space"
proof (induction p r s rule: replace_lit.induct)
  case (1 p r)
  with replace_lit_spaces[where p = p and k = k and r = r and s = "[]"] show ?case by simp
next
  case (2 p r c cs)
  have e: "ci_prefix p (c # cs @ replicate k space) \<longleftrightarrow> ci_prefix p (c # cs)"
    using ci_prefix_pad[OF 2(3,4), of "c # cs" k] by simp
  show ?case
  proof (cases "ci_prefix p (c # cs)")
    case True
    then have "length p \<le> Suc (length cs)" by (simp add: ci_prefix_def)
    then have "length p - 1 \<le> length cs" by arith
    with True 2 e show ?thesis by simp
  next
    case False
    with 2 e show ?thesis by simp
  qed
qed

lemma replace_plain:
  assumes "plain_word env word"
  shows "replace_ig env word (chalk_bold env word) s = Inr (replace_all_ci word (chalk_bold env word) s)"
    and "replace_all_ci word (chalk_bold env word) (s @ replicate k space)
           = replace_all_ci word (chalk_bold env word) s @ replicate k space"
    and "replace_all_ci word (chalk_bold env word) (replicate k space @ s)
           = replicate k space @ replace_all_ci word (chalk_bold env word) s"
  using assms
  by (simp_all add: plain_word_def replace_ig_def replace_all_ci_def replace_lit_pad replace_lit_spaces)

lemma foldE_plain:
  "list_all (plain_word env) ws \<Longrightarrow>
     \<exists>t. foldE (\<lambda>v word. replace_ig env word (chalk_bold env word) v) s ws = Inr t
        \<and> foldE (\<lambda>v word. replace_ig env word (chalk_bold env word) v) (s @ replicate k space) ws
            = Inr (t @ replicate k space)
        \<and> foldE (\<lambda>v word. replace_ig env word (chalk_bold env word) v) (replicate k space @ s) ws
            = Inr (replicate k space @ t)"
proof (induction ws arbitrary: s)
  case Nil
  show ?case by simp
next
  case (Cons w ws)
  from Cons.prems have w: "plain_word env w" and ws: "list_all (plain_word env) ws"
    by simp_all
  from Cons.IH[OF ws, of "replace_all_ci w (chalk_bold env w) s"] show ?case
    by (simp add: replace_plain[OF w])
qed

lemma highlightValue_padding:
  assumes "matchLevel d \<noteq> js ''none''" "\<not> fullyHighlighted d" "list_all (plain_word env) (matchedWords d)"
  shows "\<exists>t. highlightValue env s (Some d) = Inr t
           \<and> highlightValue env (s @ replicate k space) (Some d) = Inr (t @ replicate k space)
           \<and> highlightValue env (replicate k space @ s) (Some d) = Inr (replicate k space @ t)"
  using assms foldE_plain[of env "matchedWords d" s k] by (simp add: highlightValue_def)

lemma aligned_cell_parts:
  "aligned_cell cols rows j i =
     (if align (cols ! j) = Some AlignRight
      then cell_padding cols rows j i @ truncated_cell cols rows j i
      else truncated_cell cols rows j i @ cell_padding cols rows j i)"
  by (simp add: aligned_cell_def formatColumn_cell_def padStart_def padEnd_def truncated_cell_def
        cell_padding_def Let_def)

lemma highlightValue_aligned:
  assumes "matchLevel d \<noteq> js ''none''" "\<not> fullyHighlighted d" "list_all (plain_word env) (matchedWords d)"
  shows "\<exists>t. highlightValue env (truncated_cell cols rows j i) (Some d) = Inr t
           \<and> highlightValue env (aligned_cell cols rows j i) (Some d)
               = Inr (if align (cols ! j) = Some AlignRight then cell_padding cols rows j i @ t
                      else t @ cell_padding cols rows j i)"
  using highlightValue_padding[OF assms, of "truncated_cell cols rows j i"
      "nat (column_width (cols ! j) (column_strings cols rows j)) - length (truncated_cell cols rows j i)"]
  by (auto simp: aligned_cell_parts cell_padding_def)

lemma highlight_catalog:
  "\<forall>c\<in>set (columns env program).
      highlight c = None \<or> highlight c = Some (highlight_name env)
      \<or> highlight c = Some (highlight_description env)"
  by (simp add: columns_def)

text \<open>
  Claim C6, amended.  For rows with one string per column, \<open>printTable\<close> prints the
  rendered cells of the selected columns, or throws what rendering one of them throws.  A
  rendered cell is the aligned cell, that is the value cut to the width of the column
  together with its padding, in the header line and in a column without highlighter; in the
  line of a record, in a column with a highlighter, it is what the highlighter returns on the
  aligned cell and that record.  The highlighters of the catalog hand the aligned cell and an
  annotation of the record to \<open>highlightValue\<close>.  That returns the cell as it is when the
  annotation is absent or records no match.  For a partial match whose matched words are
  plain (words of the embedded fragment of the engine that cannot match a space) it returns
  the highlighted cut value with the padding before or after it, untouched.
  When the annotation marks the field as fully highlighted, the whole aligned cell, padding
  included, is wrapped in emphasis.
\<close>

theorem highlight_after_alignment:
  assumes wf: "\<forall>r\<in>set rows. length r = length cols"
    and sel: "sel = snd (pickColumns env program cols (printed_widths cols rows))"
  shows "printTable env program cols (map (map Some) rows) hits =
           (case mapE (\<lambda>j. mapE (rendered_cell cols rows hits j) [0..<Suc (length rows)]) sel of
              Inl e \<Rightarrow> (fst (pickColumns env program cols (printed_widths cols rows)), Some e)
            | Inr pickedCols \<Rightarrow>
                (fst (pickColumns env program cols (printed_widths cols rows))
                   @ map (\<lambda>i. Log (table_line pickedCols i)) [0..<Suc (length rows)], None))
       \<and> (\<forall>j. rendered_cell cols rows hits j 0 = Inr (aligned_cell cols rows j 0))
       \<and> (\<forall>j i. highlight (cols ! j) = None \<longrightarrow>
             rendered_cell cols rows hits j i = Inr (aligned_cell cols rows j i))
       \<and> (\<forall>j i hl. highlight (cols ! j) = Some hl \<and> 0 < i \<longrightarrow>
             rendered_cell cols rows hits j i = hl (aligned_cell cols rows j i) (nth_opt hits (i - 1)))
       \<and> (\<forall>c\<in>set (columns env program).
             highlight c = None \<or> highlight c = Some (highlight_name env)
             \<or> highlight c = Some (highlight_description env))
       \<and> (\<forall>val h. highlight_name env val (Some h) = highlightValue env val (name_hl (highlight_result h))
             \<and> highlight_description env val (Some h)
                 = highlightValue env val (description_hl (highlight_result h)))
       \<and> (\<forall>j i. aligned_cell cols rows j i =
             (if align (cols ! j) = Some AlignRight
              then cell_padding cols rows j i @ truncated_cell cols rows j i
              else truncated_cell cols rows j i @ cell_padding cols rows j i))
       \<and> (\<forall>val. highlightValue env val None = Inr val)
       \<and> (\<forall>val d. matchLevel d = js ''none'' \<longrightarrow> highlightValue env val (Some d) = Inr val)
       \<and> (\<forall>val d. matchLevel d \<noteq> js ''none'' \<and> fullyHighlighted d \<longrightarrow>
             highlightValue env val (Some d) = Inr (chalk_bold env val))
       \<and> (\<forall>j i d. matchLevel d \<noteq> js ''none'' \<and> \<not> fullyHighlighted d
                     \<and> list_all (plain_word env) (matchedWords d) \<longrightarrow>
             (\<exists>t. highlightValue env (truncated_cell cols rows j i) (Some d) = Inr t
                \<and> highlightValue env (aligned_cell cols rows j i) (Some d)
                    = Inr (if align (cols ! j) = Some AlignRight then cell_padding cols rows j i @ t
                           else t @ cell_padding cols rows j i)))"
proof (intro conjI)
  show "printTable env program cols (map (map Some) rows) hits =
           (case mapE (\<lambda>j. mapE (rendered_cell cols rows hits j) [0..<Suc (length rows)]) sel of
              Inl e \<Rightarrow> (fst (pickColumns env program cols (printed_widths cols rows)), Some e)
            | Inr pickedCols \<Rightarrow>
                (fst (pickColumns env program cols (printed_widths cols rows))
                   @ map (\<lambda>i. Log (table_line pickedCols i)) [0..<Suc (length rows)], None))"
    unfolding sel by (rule printTable_strings[OF wf])
  show "\<forall>j. rendered_cell cols rows hits j 0 = Inr (aligned_cell cols rows j 0)"
    by (simp add: rendered_cell_def)
  show "\<forall>j i. highlight (cols ! j) = None \<longrightarrow>
             rendered_cell cols rows hits j i = Inr (aligned_cell cols rows j i)"
    by (simp add: rendered_cell_def)
  show "\<forall>j i hl. highlight (cols ! j) = Some hl \<and> 0 < i \<longrightarrow>
             rendered_cell cols rows hits j i = hl (aligned_cell cols rows j i) (nth_opt hits (i - 1))"
    by (simp add: rendered_cell_def)
  show "\<forall>c\<in>set (columns env program).
             highlight c = None \<or> highlight c = Some (highlight_name env)
             \<or> highlight c = Some (highlight_description env)"
    by (rule highlight_catalog)
  show "\<forall>val h. highlight_name env val (Some h) = highlightValue env val (name_hl (highlight_result h))
             \<and> highlight_description env val (Some h)
                 = highlightValue env val (description_hl (highlight_result h))"
    by (simp add: highlight_name_def highlight_description_def)
  show "\<forall>j i. aligned_cell cols rows j i =
             (if align (cols ! j) = Some AlignRight
              then cell_padding cols rows j i @ truncated_cell cols rows j i
              else truncated_cell cols rows j i @ cell_padding cols rows j i)"
    using aligned_cell_parts by blast
  show "\<forall>val. highlightValue env val None = Inr val"
    by (simp add: highlightValue_absent)
  show "\<forall>val d. matchLevel d = js ''none'' \<longrightarrow> highlightValue env val (Some d) = Inr val"
    by (simp add: highlightValue_none)
  show "\<forall>val d. matchLevel d \<noteq> js ''none'' \<and> fullyHighlighted d \<longrightarrow>
             highlightValue env val (Some d) = Inr (chalk_bold env val)"
    by (simp add: highlightValue_full)
  show "\<forall>j i d. matchLevel d \<noteq> js ''none'' \<and> \<not> fullyHighlighted d
                     \<and> list_all (plain_word env) (matchedWords d) \<longrightarrow>
             (\<exists>t. highlightValue env (truncated_cell cols rows j i) (Some d) = Inr t
                \<and> highlightValue env (aligned_cell cols rows j i) (Some d)
                    = Inr (if align (cols ! j) = Some AlignRight then cell_padding cols rows j i @ t
                           else t @ cell_padding cols rows j i))"
    using highlightValue_aligned by blast
qed

lemma length_js [simp]: "length (js s) = length s"
  by (simp add: js_def)

lemma header_name: "header (columns env program ! 2) = js ''name''"
  "align (columns env program ! 2) = None" "maxWidth (columns env program ! 2) = None"
  "highlight (columns env program ! 2) = Some (highlight_name env)"
  by (simp_all add: columns_def)

lemma name_column12:
  "map (aligned_cell (columns env program) rows12 2) [0..<3] = [js ''NAME '', js ''vue  '', js ''react'']"
  by (simp add: upt_conv_Cons aligned_cell_def column_strings_def column_width_def header_name rows12_def
        formatColumn_cell_def slice0_def padEnd_def Let_def)
     (simp add: js_def toUpperCase_def canonicalize_def space_def replicate_2)

theorem highlight_wraps_padding:
  "highlightValue env0 (formatColumn_cell None 5 (js ''vue'')) (Some (full_match [js ''vue'']))
     = Inr (bold_open @ js ''vue'' @ replicate 2 space @ bold_close)
   \<and> emphasised (bold_open @ js ''vue'' @ replicate 2 space @ bold_close) = js ''vue'' @ replicate 2 space"
  by (simp add: highlightValue_def full_match_def formatColumn_cell_def slice0_def padEnd_def)
     (simp add: js_def ansi_bold_def emphasised_def bold_open_def bold_close_def replicate_2)

section \<open>The lines of the table\<close>

lemma main_no_results:
  "applyFlags program (columns env program) = Inr (cols, filters) \<Longrightarrow>
   search env (join (js '' '') (args program)) filters (num program) = Inr [] \<Longrightarrow>
     main env program = ((if debug program then [DebugElapsed] else []) @ [Log no_results], None)"
  by (simp add: main_def Let_def)

lemma highlight_columns:
  "map highlight (columns env program) =
     [None, None, Some (highlight_name env), None, None, None, None,
      Some (highlight_description env), Some (highlight_description env),
      Some (highlight_description env), None, None, None, None]"
  by (simp add: columns_def)

lemma highlight_nth: "j < 14 \<Longrightarrow> highlight (columns env program ! j)
   = [None, None, Some (highlight_name env), None, None, None, None,
      Some (highlight_description env), Some (highlight_description env),
      Some (highlight_description env), None, None, None, None] ! j"
  using nth_map[of j "columns env program" highlight] by (simp add: highlight_columns)

lemma selection_wide:
  "snd (pickColumns env_wide program (columns env_wide program') ws) = [0, 1, 2, 3, 9, 10, 11, 12]"
proof -
  have "feasible (Solve env_wide m)" and "Solve env_wide m = wide_solution" for m
    by (simp_all add: env_wide_def env0_def wide_solution_def)
  then show ?thesis
    by (simp add: selected_indices wide_value upt_conv_Cons)
qed

lemma all_le_2: "(\<forall>i\<le>2. P (i::nat)) \<longleftrightarrow> P 0 \<and> P 1 \<and> P 2"
proof -
  have "i \<le> 2 \<longleftrightarrow> i = 0 \<or> i = 1 \<or> i = 2" for i :: nat by auto
  then show ?thesis by auto
qed

lemma no_dollar_vue: "0x24 \<notin> set (ansi_bold (js ''vue''))" "0x24 \<notin> set (ansi_bold (js ''2''))"
  by (simp_all add: ansi_bold_def js_def bold_open_def bold_close_def)

lemma rendered12_ok:
  "\<forall>j\<in>set [0, 1, 2, 3, 9, 10, 11, 12]. \<forall>i\<le>length rows12.
      \<exists>s. rendered_cell (columns env_wide program) rows12 [hit1, hit2] j i = Inr s"
proof -
  have l: "length rows12 = 2" by (simp add: rows12_def)
  show ?thesis
    unfolding l all_le_2
    by (simp add: rendered_cell_def highlight_nth nth_opt_def highlight_name_def highlight_description_def
          hit1_def hit2_def highlightValue_def full_match_def partial_match_def replace_ig_def no_dollar_vue)
qed

lemma rows12_wf: "\<forall>r\<in>set rows12. length r = length (columns env program)"
  by (simp add: rows12_def)

lemma two_records_printed:
  "snd (printTable env_wide program0 (columns env_wide program0) (map (map Some) rows12) [hit1, hit2]) = None
   \<and> length (fst (printTable env_wide program0 (columns env_wide program0) (map (map Some) rows12) [hit1, hit2])) = 3
   \<and> list_all (\<lambda>e. \<exists>l. e = Log l)
        (fst (printTable env_wide program0 (columns env_wide program0) (map (map Some) rows12) [hit1, hit2]))"
proof -
  let ?cols = "columns env_wide program0"
  obtain out err where res: "printTable env_wide program0 ?cols (map (map Some) rows12) [hit1, hit2] = (out, err)"
    by (cases "printTable env_wide program0 ?cols (map (map Some) rows12) [hit1, hit2]")
  have sel: "[0, 1, 2, 3, 9, 10, 11, 12] = snd (pickColumns env_wide program0 ?cols (printed_widths ?cols rows12))"
    by (simp only: selection_wide)
  have d: "\<not> debug program0" by (simp add: program0_def)
  from printTable_outcome[OF rows12_wf sel res, unfolded pickColumns_logs] rendered12_ok[of program0]
  have "err = None" and "\<exists>cells. out = (if debug program0 then [DebugModel (lp_model env_wide ?cols (printed_widths ?cols rows12)),
                          DebugResult (Solve env_wide (lp_model env_wide ?cols (printed_widths ?cols rows12)))]
                    else []) @ map (\<lambda>i. Log (join (js '' '') (map (\<lambda>j. cells j i) [0, 1, 2, 3, 9, 10, 11, 12 :: nat]))) [0..<length rows12 + 1]"
    by blast+
  with d have "err = None" "length out = 3" "list_all (\<lambda>e. \<exists>l. e = Log l) out"
    by (auto simp: rows12_def list_all_iff)
  with res show ?thesis by simp
qed

lemma match_levels [simp]: "js ''partial'' \<noteq> js ''none''" "js ''full'' \<noteq> js ''none''"
  by (simp_all add: js_def)

lemma plus_throws:
  "printTable env_wide program0 (columns env_wide program0) (map (map Some) rows12) [hit3, hit2]
     = ([], Some SyntaxError)"
proof -
  let ?cols = "columns env_wide program0"
  have l: "length rows12 = 2" by (simp add: rows12_def)
  have "mapE (\<lambda>j. mapE (rendered_cell ?cols rows12 [hit3, hit2] j) [0..<Suc (length rows12)])
          [0, 1, 2, 3, 9, 10, 11, 12] = Inl SyntaxError"
    unfolding l
    by (simp add: upt_conv_Cons rendered_cell_def highlight_nth nth_opt_def highlight_name_def
          highlight_description_def hit3_def hit1_def hit2_def highlightValue_def partial_match_def
          replace_ig_def)
  then show ?thesis
    by (simp add: printTable_strings[OF rows12_wf] selection_wide pickColumns_logs program0_def)
qed

section \<open>Options and records\<close>

lemma adjustImportance_found:
  "hdr \<in> set (map header cols) \<Longrightarrow>
     adjustImportance hdr n cols
       = Inr (map (\<lambda>col. if header col = hdr then col\<lparr>importance := n\<rparr> else col) cols)"
  by (auto simp: adjustImportance_def list_ex_iff)

lemma header_adjusted [simp]:
  "map header (map (\<lambda>col. if header col = hdr then col\<lparr>importance := n\<rparr> else col) cols) = map header cols"
  by (induction cols) auto

lemma header_columns:
  "map header (columns env program) =
     [js ''DLs'', js ''pop'', js ''name'', js ''types'', js ''types'', js ''npm'', js ''yarn'',
      js ''description'', js ''description'', js ''description'', js ''date'', js ''updated'',
      js ''homepage'', js ''repo'']"
  by (simp add: columns_def)

lemma adjustable:
  assumes "map header cols = map header (columns env program)"
  shows "js ''yarn'' \<in> set (map header cols)" "js ''npm'' \<in> set (map header cols)"
    "js ''types'' \<in> set (map header cols)" "js ''repo'' \<in> set (map header cols)"
    "js ''homepage'' \<in> set (map header cols)"
  unfolding assms header_columns by simp_all

lemma flag_names [simp]:
  "js ''dt'' \<noteq> js ''untyped''" "js ''bundled'' \<noteq> js ''untyped''" "js ''bundled'' \<noteq> js ''dt''"
  by (simp_all add: js_def)

lemma flags_joined: "join (js '','') [js ''untyped'', js ''dt'', js ''bundled''] = js ''untyped,dt,bundled''"
  by (simp add: js_def)

lemma applyFlags_conflict:
  assumes c: "(untyped program \<and> dt program) \<or> (untyped program \<and> bundled program)
              \<or> (dt program \<and> bundled program)"
  shows "applyFlags program (columns env program') = Inl (Error one_of_message)"
proof -
  let ?adj = "\<lambda>hdr n cols. map (\<lambda>col. if header col = hdr then col\<lparr>importance := n\<rparr> else col) cols"
  have a: "adjustImportance hdr n cols = Inr (?adj hdr n cols)"
    if "map header cols = map header (columns env program')"
      and "hdr \<in> {js ''yarn'', js ''npm'', js ''types'', js ''repo'', js ''homepage''}" for hdr n cols
    using that adjustable[OF that(1)] by (intro adjustImportance_found) auto
  have m: "js ''May only specify one of '' @ js ''untyped'' @ js '','' @ js ''dt'' @ js '','' @ js ''bundled''
             = one_of_message"
    by (simp add: one_of_message_def js_def)
  from c have s: "sum_list (map (\<lambda>flag. if program_flag program flag then 1 else 0)
                     [js ''untyped'', js ''dt'', js ''bundled'']) > (1 :: int)"
    by (auto simp: program_flag_def)
  show ?thesis
    unfolding applyFlags_def Let_def
    using s by (simp add: bindE_def a m)
qed

text \<open>
  Claim C9.  When more than one of the options \<open>untyped\<close>, \<open>dt\<close> and \<open>bundled\<close> is
  given, the run fails with the message that names the three options, whatever the search
  service, the solver and the terminal are, and nothing has been printed.
\<close>

theorem conflicting_flags_fail:
  "(untyped program \<and> dt program) \<or> (untyped program \<and> bundled program)
     \<or> (dt program \<and> bundled program) \<Longrightarrow>
     main env program = ([], Some (Error one_of_message))
   \<and> one_of_message = js ''May only specify one of '' @ js ''untyped'' @ js '','' @ js ''dt'' @ js '','' @ js ''bundled''"
  by (simp add: main_def Let_def applyFlags_conflict) (simp add: one_of_message_def js_def)

theorem conflicting_flags_fail_witness:
  "dt (program0\<lparr>dt := True, bundled := True\<rparr>) \<and> bundled (program0\<lparr>dt := True, bundled := True\<rparr>)
   \<and> main env_wide (program0\<lparr>dt := True, bundled := True\<rparr>) = ([], Some (Error one_of_message))"
  using conflicting_flags_fail[of "program0\<lparr>dt := True, bundled := True\<rparr>" env_wide]
  by simp

lemma formatResult_columns:
  assumes t: "types h = Some t"
  shows "formatResult (columns env program) h =
     Inr [humanDownloadsLast30Days h,
          Some (if popular h then fire else []),
          objectID h,
          (if ts t = Some (js ''included'') then Some (js ''<bundled>'')
           else if ts t = Some (js ''definitely-typed'') then definitelyTyped t else Some []),
          (if ts t = Some (js ''included'') then Some (js ''<inc>'')
           else if ts t = Some (js ''definitely-typed'') then Some (js ''dt'') else Some []),
          projr (makeInstallCommand program (js ''npm install'') h),
          projr (makeInstallCommand program (js ''yarn add'') h),
          Some (decode env (case description h of None \<Rightarrow> [] | Some d \<Rightarrow> d)),
          Some (decode env (case description h of None \<Rightarrow> [] | Some d \<Rightarrow> d)),
          Some (decode env (case description h of None \<Rightarrow> [] | Some d \<Rightarrow> d)),
          Some (moment_format env (modified h)),
          Some (moment_fromNow env (modified h)),
          (if truthy_str (homepage h) then homepage h else repository_url h),
          repository_url h]"
  by (simp add: formatResult_def columns_def format_types_long_def format_types_short_def
        makeInstallCommand_def format_description_def format_homepage_def t Let_def)

text \<open>
  Claim C10, amended.  For a record that has its \<open>types\<close> field, with an entity decoder
  that maps the empty string to itself, formatting throws nothing and yields one cell per
  column of the catalog; the popularity flag when unset, an absent description, an absent
  homepage without repository and an absent repository are rendered as the empty string.
\<close>

theorem formatResult_total:
  "types h \<noteq> None \<Longrightarrow> decode env [] = [] \<Longrightarrow>
     (\<exists>cells. formatResult (columns env program) h = Inr cells
        \<and> length cells = length (columns env program)
        \<and> (humanDownloadsLast30Days h = None \<longrightarrow> cells ! 0 = None)
        \<and> (objectID h = None \<longrightarrow> cells ! 2 = None)
        \<and> (\<not> popular h \<longrightarrow> cells ! 1 = Some [])
        \<and> (description h = None \<longrightarrow> cells ! 7 = Some [] \<and> cells ! 8 = Some [] \<and> cells ! 9 = Some [])
        \<and> (homepage h = None \<and> repository h = None \<longrightarrow> cells ! 12 = Some [])
        \<and> (repository h = None \<longrightarrow> cells ! 13 = Some []))"
proof -
  assume "types h \<noteq> None" and d: "decode env [] = []"
  then obtain t where t: "types h = Some t" by auto
  show ?thesis
    unfolding formatResult_columns[OF t]
    by (simp add: d truthy_str_def repository_url_def)
qed

theorem formatResult_total_witness:
  "types hit2 \<noteq> None \<and> decode env0 [] = []
   \<and> (\<exists>cells. formatResult (columns env0 program0) hit2 = Inr cells
        \<and> length cells = length (columns env0 program0)
        \<and> cells ! 7 = Some [] \<and> cells ! 8 = Some [] \<and> cells ! 9 = Some [])"
proof -
  have t: "types hit2 \<noteq> None" and d: "decode env0 [] = []" and n: "description hit2 = None"
    by (simp_all add: hit2_def env0_def)
  from formatResult_total[OF t d, of program0] t d n show ?thesis
    by blast
qed

lemma formatResult_hit2:
  "formatResult (columns env0 program0) hit2 = Inr (map Some (rows12 ! 1))"
proof -
  have t2: "types hit2 = Some \<lparr>ts = Some (js ''definitely-typed''), definitelyTyped = Some (js ''@types/react'')\<rparr>"
    by (simp add: hit2_def)
  show ?thesis
    unfolding formatResult_columns[OF t2]
    by (simp add: hit2_def rows12_def env0_def program0_def makeInstallCommand_def truthy_str_def
          repository_url_def template_def)
       (simp add: js_def)
qed

theorem formatResult_throws:
  "formatResult (columns env0 program0) (hit1\<lparr>types := None\<rparr>) = Inl TypeError
   \<and> formatResult (columns env0 program0) (hit1\<lparr>humanDownloadsLast30Days := None\<rparr>)
       = Inr (None # tl (map Some (rows12 ! 0)))"
proof -
  have t: "types (hit1\<lparr>humanDownloadsLast30Days := None\<rparr>)
             = Some \<lparr>ts = Some (js ''included''), definitelyTyped = None\<rparr>"
    by (simp add: hit1_def)
  have "formatResult (columns env0 program0) (hit1\<lparr>humanDownloadsLast30Days := None\<rparr>)
       = Inr (None # tl (map Some (rows12 ! 0)))"
    unfolding formatResult_columns[OF t]
    by (simp add: hit1_def rows12_def env0_def program0_def makeInstallCommand_def truthy_str_def
          repository_url_def template_def)
       (simp add: js_def)
  then show ?thesis
    by (simp add: formatResult_def columns_def format_types_long_def hit1_def)
qed

section \<open>Widths and highlighting on the two records\<close>

lemma maxWidth_columns:
  "map maxWidth (columns env program) =
     [None, None, None, None, None, None, None, Some 40, Some 60, None, None, None, None, None]"
  by (simp add: columns_def)

lemma catalog_headers_ok:
  "\<forall>c\<in>set (columns env program). ascii (header c) \<and> (\<forall>m. maxWidth c = Some m \<longrightarrow> 1 \<le> m)"
proof -
  have "\<forall>h\<in>set (map header (columns env program)). ascii h"
    unfolding header_columns by (simp add: ascii_def js_def)
  moreover have "\<forall>w\<in>set (map maxWidth (columns env program)). \<forall>m. w = Some m \<longrightarrow> 1 \<le> m"
    unfolding maxWidth_columns by simp
  ultimately show ?thesis by simp
qed

lemma header_nth: "j < 14 \<Longrightarrow> header (columns env program ! j) = map header (columns env program) ! j"
  by simp

lemma maxWidth_nth: "j < 14 \<Longrightarrow> maxWidth (columns env program ! j) = map maxWidth (columns env program) ! j"
  by simp

lemma natural_widths12:
  "map (\<lambda>j. spec_natural_width (header (columns env program ! j)) (map (\<lambda>r. r ! j) rows12)
              (maxWidth (columns env program ! j))) [0..<length (columns env program)]
     = [3, 3, 5, 12, 5, 48, 42, 11, 11, 11, 10, 9, 25, 25]"
  by (simp add: upt_conv_Cons header_nth maxWidth_nth header_columns maxWidth_columns
        spec_natural_width_def rows12_def fire_def Let_def)

theorem natural_width_witness:
  "list_all (\<lambda>r. length r = length (columns env0 program0)) rows12
   \<and> list_all (\<lambda>c. ascii (header c) \<and> (\<forall>m. maxWidth c = Some m \<longrightarrow> 1 \<le> m)) (columns env0 program0)
   \<and> bindE (printTable_formattedCols (columns env0 program0) (map (map Some) rows12)) printTable_widths
        = Inr [3, 3, 5, 12, 5, 48, 42, 11, 11, 11, 10, 9, 25, 25]"
  using natural_width[OF rows12_wf[of env0 program0] catalog_headers_ok[of env0 program0]]
    rows12_wf[of env0 program0] catalog_headers_ok[of env0 program0]
  by (simp only: natural_widths12 list_all_iff)

lemma plain_vue: "plain_word env_wide (js ''vue'')"
  by (simp add: plain_word_def no_dollar_vue) (simp add: js_def space_def)

lemma name_cells12:
  "aligned_cell (columns env program) rows12 2 0 = js ''NAME ''"
  "aligned_cell (columns env program) rows12 2 1 = js ''vue  ''"
  "truncated_cell (columns env program) rows12 2 1 = js ''vue''"
  "cell_padding (columns env program) rows12 2 1 = replicate 2 space"
proof -
  have w: "column_width (columns env program ! 2) (column_strings (columns env program) rows12 2) = 5"
    by (simp add: column_strings_def column_width_def header_name rows12_def Let_def)
  show t: "truncated_cell (columns env program) rows12 2 1 = js ''vue''"
    unfolding truncated_cell_def w by (simp add: column_strings_def rows12_def slice0_def)
  show "cell_padding (columns env program) rows12 2 1 = replicate 2 space"
    unfolding cell_padding_def t w by simp
  from name_column12[of env program]
  show "aligned_cell (columns env program) rows12 2 0 = js ''NAME ''"
    "aligned_cell (columns env program) rows12 2 1 = js ''vue  ''"
    by (simp_all add: upt_conv_Cons)
qed

lemma mapE_total: "\<forall>x\<in>set xs. \<exists>y. f x = Inr y \<Longrightarrow> \<exists>ys. mapE f xs = Inr ys"
  by (induction xs) auto

lemma rendered12_mapE:
  "\<exists>pickedCols.
      mapE (\<lambda>j. mapE (rendered_cell (columns env_wide program) rows12 [hit1, hit2] j) [0..<Suc (length rows12)])
        [0, 1, 2, 3, 9, 10, 11, 12] = Inr pickedCols"
proof (rule mapE_total, rule ballI, rule mapE_total, rule ballI)
  fix j i :: nat
  assume j: "j \<in> set [0, 1, 2, 3, 9, 10, 11, 12]" and i: "i \<in> set [0..<Suc (length rows12)]"
  from i have "i \<le> length rows12" by (simp del: upt_Suc add: less_Suc_eq_le)
  with j show "\<exists>s. rendered_cell (columns env_wide program) rows12 [hit1, hit2] j i = Inr s"
    by (rule rendered12_ok[rule_format])
qed

theorem highlight_after_alignment_witness:
  "list_all (\<lambda>r. length r = length (columns env_wide program0)) rows12
   \<and> snd (printTable env_wide program0 (columns env_wide program0) (map (map Some) rows12) [hit1, hit2]) = None
   \<and> rendered_cell (columns env_wide program0) rows12 [hit1, hit2] 2 0 = Inr (js ''NAME '')
   \<and> rendered_cell (columns env_wide program0) rows12 [hit1, hit2] 0 1
        = Inr (aligned_cell (columns env_wide program0) rows12 0 1)
   \<and> rendered_cell (columns env_wide program0) rows12 [hit1, hit2] 2 1
        = Inr (bold_open @ js ''vue  '' @ bold_close)
   \<and> highlightValue env_wide (js ''vue  '') (Some (partial_match [js ''vue'']))
        = Inr (bold_open @ js ''vue'' @ bold_close @ replicate 2 space)"
proof -
  let ?cols = "columns env_wide program0"
  note t = highlight_after_alignment[OF rows12_wf[of env_wide program0] refl,
      of env_wide program0 "[hit1, hit2]"]
  note printed = t[THEN conjunct1]
  note t2 = t[THEN conjunct2]
  note header_cell = t2[THEN conjunct1, rule_format]
  note t3 = t2[THEN conjunct2]
  note plain_cell = t3[THEN conjunct1, rule_format]
  note t4 = t3[THEN conjunct2]
  note data_cell = t4[THEN conjunct1, rule_format]
  note t6 = t4[THEN conjunct2, THEN conjunct2]
  note by_name = t6[THEN conjunct1, rule_format, THEN conjunct1]
  note t10 = t6[THEN conjunct2, THEN conjunct2, THEN conjunct2, THEN conjunct2]
  note full = t10[THEN conjunct1, rule_format]
  note partial = t10[THEN conjunct2, rule_format]

  from rendered12_mapE[of program0] obtain pickedCols where
    "mapE (\<lambda>j. mapE (rendered_cell ?cols rows12 [hit1, hit2] j) [0..<Suc (length rows12)])
        [0, 1, 2, 3, 9, 10, 11, 12] = Inr pickedCols" ..
  then have "mapE (\<lambda>j. mapE (rendered_cell ?cols rows12 [hit1, hit2] j) [0..<Suc (length rows12)])
        (snd (pickColumns env_wide program0 ?cols (printed_widths ?cols rows12))) = Inr pickedCols"
    by (simp only: selection_wide)
  then have p: "snd (printTable env_wide program0 ?cols (map (map Some) rows12) [hit1, hit2]) = None"
    unfolding printed by (simp only: sum.case snd_conv)
  have h: "highlight (?cols ! 2) = Some (highlight_name env_wide)" and h0: "highlight (?cols ! 0) = None"
    by (simp_all add: highlight_nth)
  have c0: "rendered_cell ?cols rows12 [hit1, hit2] 2 0 = Inr (js ''NAME '')"
    using header_cell[of 2] by (simp only: name_cells12)
  have c1: "rendered_cell ?cols rows12 [hit1, hit2] 0 1 = Inr (aligned_cell ?cols rows12 0 1)"
    using plain_cell[OF h0] .
  have n: "nth_opt [hit1, hit2] (1 - 1) = Some hit1"
    by (simp add: nth_opt_def)
  have a: "name_hl (highlight_result hit1) = Some (full_match [js ''vue''])"
    by (simp add: hit1_def)
  have f: "matchLevel (full_match [js ''vue'']) \<noteq> js ''none'' \<and> fullyHighlighted (full_match [js ''vue''])"
    by (simp add: full_match_def)
  have b: "chalk_bold env_wide (js ''vue  '') = bold_open @ js ''vue  '' @ bold_close"
    by (simp add: ansi_bold_def js_def)
  have "rendered_cell ?cols rows12 [hit1, hit2] 2 1
        = highlight_name env_wide (aligned_cell ?cols rows12 2 1) (nth_opt [hit1, hit2] (1 - 1))"
    by (rule data_cell) (simp add: h)
  also have "\<dots> = highlightValue env_wide (aligned_cell ?cols rows12 2 1) (Some (full_match [js ''vue'']))"
    unfolding n by_name a ..
  also have "\<dots> = Inr (chalk_bold env_wide (aligned_cell ?cols rows12 2 1))"
    by (rule full) (rule f)
  finally have c2: "rendered_cell ?cols rows12 [hit1, hit2] 2 1 = Inr (bold_open @ js ''vue  '' @ bold_close)"
    by (simp only: name_cells12 b)
  have q: "matchLevel (partial_match [js ''vue'']) \<noteq> js ''none'' \<and> \<not> fullyHighlighted (partial_match [js ''vue''])
      \<and> list_all (plain_word env_wide) (matchedWords (partial_match [js ''vue'']))"
    by (simp add: partial_match_def plain_vue)
  have l: "align (?cols ! 2) \<noteq> Some AlignRight"
    by (simp add: header_name)
  from partial[OF q, of 2 1]
  obtain t' where 1: "highlightValue env_wide (js ''vue'') (Some (partial_match [js ''vue''])) = Inr t'"
    and 2: "highlightValue env_wide (js ''vue  '') (Some (partial_match [js ''vue'']))
             = Inr (t' @ replicate 2 space)"
    unfolding name_cells12 if_not_P[OF l] by blast
  have "highlightValue env_wide (js ''vue'') (Some (partial_match [js ''vue'']))
          = Inr (bold_open @ js ''vue'' @ bold_close)"
    by (simp add: highlightValue_def partial_match_def replace_ig_def no_dollar_vue)
       (simp add: js_def replace_all_ci_def ci_prefix_def canonicalize_def ansi_bold_def)
  with 1 2 have c3: "highlightValue env_wide (js ''vue  '') (Some (partial_match [js ''vue'']))
        = Inr (bold_open @ js ''vue'' @ bold_close @ replicate 2 space)"
    by simp
  have wfl: "list_all (\<lambda>r. length r = length ?cols) rows12"
    using rows12_wf[of env_wide program0] by (simp only: list_all_iff)
  show ?thesis
    by (rule conjI[OF wfl conjI[OF p conjI[OF c0 conjI[OF c1 conjI[OF c2 c3]]]]])
qed

lemma space_word_wraps_padding:
  "highlightValue env0 (formatColumn_cell None 5 (js ''vue'')) (Some (partial_match [js '' '']))
     = Inr (js ''vue'' @ bold_open @ [space] @ bold_close @ bold_open @ [space] @ bold_close)
   \<and> emphasised (js ''vue'' @ bold_open @ [space] @ bold_close @ bold_open @ [space] @ bold_close)
       = replicate 2 space"
proof -
  have l: "pattern_kind_of (js '' '') = Literal"
    by (simp add: pattern_kind_of_def js_def syntax_chars_def)
  show ?thesis
    by (simp add: highlightValue_def partial_match_def formatColumn_cell_def slice0_def padEnd_def
          replace_ig_def l)
       (simp add: js_def ansi_bold_def emphasised_def bold_open_def bold_close_def replicate_2
          replace_all_ci_def ci_prefix_def canonicalize_def space_def)
qed

lemma formatResult_rows12:
  "mapE (formatResult (columns env_wide program0)) [hit3, hit2] = Inr (map (map Some) rows12)"
proof -
  have t3: "types hit3 = Some \<lparr>ts = Some (js ''included''), definitelyTyped = None\<rparr>"
    by (simp add: hit3_def hit1_def)
  have t2: "types hit2 = Some \<lparr>ts = Some (js ''definitely-typed''), definitelyTyped = Some (js ''@types/react'')\<rparr>"
    by (simp add: hit2_def)
  have 3: "formatResult (columns env_wide program0) hit3 = Inr (map Some (rows12 ! 0))"
    unfolding formatResult_columns[OF t3]
    by (simp add: hit3_def hit1_def rows12_def env_wide_def env0_def program0_def makeInstallCommand_def
          truthy_str_def repository_url_def template_def)
       (simp add: js_def)
  have 2: "formatResult (columns env_wide program0) hit2 = Inr (map Some (rows12 ! 1))"
    unfolding formatResult_columns[OF t2]
    by (simp add: hit2_def rows12_def env_wide_def env0_def program0_def makeInstallCommand_def
          truthy_str_def repository_url_def template_def)
       (simp add: js_def)
  have "map (map Some) rows12 = [map Some (rows12 ! 0), map Some (rows12 ! 1)]"
    by (simp add: rows12_def)
  with 2 3 show ?thesis by simp
qed

text \<open>
  Claim C7 says that \<open>N\<close> records are rendered as exactly \<open>N + 1\<close> lines.  The code
  breaks it where a matched word is not a pattern the engine accepts.  Of the two records
  \<open>hit3\<close> and \<open>hit2\<close> the first has a plus sign as the matched word of its description: the rows are what
  formatting yields, the constructor of the pattern throws in the highlight phase, which
  comes before the first line is written, and no line is printed instead of three.  With the
  matched words \<open>vue\<close> and \<open>2\<close> in its place the same rows are printed as three lines.
\<close>

theorem printTable_throws_on_plus:
  "mapE (formatResult (columns env_wide program0)) [hit3, hit2] = Inr (map (map Some) rows12)
   \<and> printTable env_wide program0 (columns env_wide program0) (map (map Some) rows12) [hit3, hit2]
        = ([], Some SyntaxError)
   \<and> length [hit3, hit2] + 1 = 3
   \<and> snd (printTable env_wide program0 (columns env_wide program0) (map (map Some) rows12) [hit1, hit2]) = None
   \<and> length (fst (printTable env_wide program0 (columns env_wide program0) (map (map Some) rows12) [hit1, hit2])) = 3"
  using formatResult_rows12 plus_throws two_records_printed by simp

section \<open>The catalog after the options\<close>

lemma adjustImportance_mutexGroup:
  "adjustImportance hdr n cols = Inr cols' \<Longrightarrow> map mutexGroup cols' = map mutexGroup cols"
  by (auto simp: adjustImportance_def split: if_splits)

lemma bindE_Inr: "bindE r f = Inr v \<longleftrightarrow> (\<exists>u. r = Inr u \<and> f u = Inr v)"
  by (cases r) (simp_all add: bindE_def)

lemma optional_adjust:
  "(if b then adjustImportance hdr n cols else Inr cols) = Inr cols' \<Longrightarrow>
     map mutexGroup cols' = map mutexGroup cols"
  by (auto split: if_splits dest: adjustImportance_mutexGroup)

lemma bindE_InrE:
  assumes "bindE r f = Inr v"
  obtains u where "r = Inr u" and "f u = Inr v"
  using assms by (auto simp: bindE_Inr)

lemma applyFlags_mutexGroup:
  assumes "applyFlags program cols0 = Inr (cols, filters)"
  shows "map mutexGroup cols = map mutexGroup cols0"
proof -
  from assms obtain cols1 cols2 cols3 cols4
    where 1: "(if yarn program then adjustImportance (js ''yarn'') 1000 cols0 else Inr cols0) = Inr cols1"
      and 2: "(if npm program then adjustImportance (js ''npm'') 1000 cols1 else Inr cols1) = Inr cols2"
      and 3: "(if yarn program \<or> npm program then adjustImportance (js ''types'') 25 cols2 else Inr cols2) = Inr cols3"
      and 4: "(if repo program
               then bindE (adjustImportance (js ''repo'') 1000 cols3) (adjustImportance (js ''homepage'') (- 1))
               else Inr cols3) = Inr cols4"
      and 5: "(let flags = [js ''untyped'', js ''dt'', js ''bundled'']
      in if sum_list (map (\<lambda>flag. if program_flag program flag then 1 else 0) flags) > (1 :: int)
         then Inl (Error (js ''May only specify one of '' @ join (js '','') flags))
         else Inr (cols4,
                   if untyped program then NOT_TYPES
                   else if dt program then IS_DT
                   else if bundled program then FILTERS_bundled
                   else FILTERS_default)) = Inr (cols, filters)"
    unfolding applyFlags_def by (elim bindE_InrE) blast
  from 5 have c: "cols = cols4"
    by (simp only: Let_def split: if_splits) simp_all
  from 4 have "map mutexGroup cols4 = map mutexGroup cols3"
  proof (cases "repo program")
    case True
    with 4 obtain c' where "adjustImportance (js ''repo'') 1000 cols3 = Inr c'"
      and "adjustImportance (js ''homepage'') (- 1) c' = Inr cols4"
      by (auto elim: bindE_InrE)
    then show ?thesis
      by (auto dest!: adjustImportance_mutexGroup)
  next
    case False
    with 4 show ?thesis by simp
  qed
  with optional_adjust[OF 1] optional_adjust[OF 2] optional_adjust[OF 3] c show ?thesis
    by simp
qed

lemma names_ok_cong:
  assumes "map mutexGroup cols' = map mutexGroup cols"
  shows "names_ok cols' = names_ok cols"
proof -
  from assms have "length cols' = length cols" by (rule map_eq_imp_length_eq)
  with assms show ?thesis by (simp add: names_ok_def mutexes_of_def)
qed

lemma names_ok_run:
  "applyFlags program (columns env program') = Inr (cols, filters) \<Longrightarrow> names_ok cols"
  using names_ok_cong[OF applyFlags_mutexGroup] names_ok_columns by blast

end
